theory Spec2Isabelle
  imports Main "HOL-Library.Multiset" "HOL-Library.Product_Lexorder" "HOL-Library.Sublist"
begin

section \<open>Characters and the string primitives of the Python source\<close>

text \<open>
  A Python \<open>str\<close> is modelled as a \<open>string\<close> whose characters stand for the code points
  0..255. The character classes below are the ones Python uses on that range:
  \<open>str.isspace\<close> (also the class \<open>\s\<close> of \<open>re\<close> and what \<open>strip()\<close> and \<open>split()\<close> remove),
  the line boundaries of \<open>str.splitlines\<close>, \<open>string.punctuation\<close> and \<open>str.lower\<close>.
\<close>

definition is_space :: "char \<Rightarrow> bool" where
  "is_space c =
     (let n = (of_char c :: nat)
      in (9 \<le> n \<and> n \<le> 13) \<or> (28 \<le> n \<and> n \<le> 32) \<or> n = 133 \<or> n = 160)"

definition is_linebreak :: "char \<Rightarrow> bool" where
  "is_linebreak c =
     (let n = (of_char c :: nat)
      in (10 \<le> n \<and> n \<le> 13) \<or> (28 \<le> n \<and> n \<le> 30) \<or> n = 133)"

definition is_punct :: "char \<Rightarrow> bool" where
  "is_punct c =
     (let n = (of_char c :: nat)
      in (33 \<le> n \<and> n \<le> 47) \<or> (58 \<le> n \<and> n \<le> 64) \<or> (91 \<le> n \<and> n \<le> 96) \<or>
         (123 \<le> n \<and> n \<le> 126))"

definition lower_char :: "char \<Rightarrow> char" where
  "lower_char c =
     (let n = (of_char c :: nat)
      in if (65 \<le> n \<and> n \<le> 90) \<or> (192 \<le> n \<and> n \<le> 222 \<and> n \<noteq> 215)
         then char_of (n + 32) else c)"

definition lower :: "string \<Rightarrow> string" where
  "lower s = map lower_char s"

text \<open>\<open>text.translate(str.maketrans('', '', string.punctuation))\<close>\<close>

definition remove_punct :: "string \<Rightarrow> string" where
  "remove_punct s = filter (\<lambda>c. \<not> is_punct c) s"

definition rstrip :: "string \<Rightarrow> string" where
  "rstrip s = rev (dropWhile is_space (rev s))"

definition strip :: "string \<Rightarrow> string" where
  "strip s = rstrip (dropWhile is_space s)"

lemma dropWhile_shorter [termination_simp]: "length (dropWhile P xs) < Suc (length xs)"
  by (simp add: less_Suc_eq_le length_dropWhile_le)

text \<open>\<open>re.sub(r'\s+', ' ', text)\<close>: every maximal run of whitespace becomes one space.\<close>

fun collapse_ws :: "string \<Rightarrow> string" where
  "collapse_ws [] = []"
| "collapse_ws (c # cs) =
     (if is_space c then CHR 0x20 # collapse_ws (dropWhile is_space cs) else c # collapse_ws cs)"

text \<open>
  \<open>re.sub(r'-\s*\n\s*', '', text)\<close>. At a hyphen the pattern matches exactly when the maximal
  run of whitespace after it holds a newline (the first \<open>\s*\<close> backtracks to the last newline
  of the run, the second \<open>\s*\<close> takes the rest of the run), and the match is then the hyphen
  with the whole run. Matches are found left to right and do not overlap.
\<close>

fun dehyphenate_sub :: "string \<Rightarrow> string" where
  "dehyphenate_sub [] = []"
| "dehyphenate_sub (c # cs) =
     (if c = CHR ''-'' \<and> CHR 0x0A \<in> set (takeWhile is_space cs)
      then dehyphenate_sub (dropWhile is_space cs)
      else c # dehyphenate_sub cs)"

text \<open>
  \<open>str.splitlines()\<close>: the text is cut at every line boundary (\<open>\r\n\<close> counts as one), the
  boundaries are dropped, and there is no empty last line after a final boundary.
\<close>

fun splitlines_from :: "string \<Rightarrow> string \<Rightarrow> string list" where
  "splitlines_from cur [] = (if cur = [] then [] else [cur])"
| "splitlines_from cur (c # cs) =
     (if is_linebreak c then
        (case cs of
           d # ds \<Rightarrow> if c = CHR 0x0D \<and> d = CHR 0x0A then cur # splitlines_from [] ds
                     else cur # splitlines_from [] cs
         | [] \<Rightarrow> cur # splitlines_from [] cs)
      else splitlines_from (cur @ [c]) cs)"

definition splitlines :: "string \<Rightarrow> string list" where
  "splitlines s = splitlines_from [] s"

text \<open>\<open>sep.join(parts)\<close>\<close>

fun join_with :: "string \<Rightarrow> string list \<Rightarrow> string" where
  "join_with sep [] = []"
| "join_with sep [x] = x"
| "join_with sep (x # y # ys) = x @ sep @ join_with sep (y # ys)"

section \<open>Text normalizer (comparator.py)\<close>

record options =
  ignore_case :: bool
  ignore_punctuation :: bool
  de_hyphenate :: bool

text \<open>\<open>PDFComparator._apply_preprocessing_options\<close>\<close>

definition apply_preprocessing_options :: "options \<Rightarrow> string \<Rightarrow> string" where
  "apply_preprocessing_options opts text =
     (let text1 = (if ignore_case opts then lower text else text);
          text2 = (if ignore_punctuation opts then remove_punct text1 else text1)
      in strip (collapse_ws text2))"

text \<open>\<open>PDFComparator._preprocess_text\<close>: \<open>None\<close> in, \<open>None\<close> out; otherwise the cleaned, non-empty lines.\<close>

definition preprocess_text :: "options \<Rightarrow> string option \<Rightarrow> string list option" where
  "preprocess_text opts raw_text =
     (case raw_text of
        None \<Rightarrow> None
      | Some raw \<Rightarrow>
          (let processed_text = (if de_hyphenate opts then dehyphenate_sub raw else raw);
               lines = splitlines processed_text
           in Some (filter (\<lambda>processed_line. processed_line \<noteq> [])
                      (map (apply_preprocessing_options opts) lines))))"


section \<open>Sequence alignment: \<open>difflib.SequenceMatcher(None, a, b, autojunk=False)\<close>\<close>

text \<open>
  Both comparators align two sequences with Python's \<open>difflib.SequenceMatcher\<close>, always with
  no junk test and \<open>autojunk=False\<close>, so no element is junk or popular and \<open>b2j\<close> lists, for
  every element, all its positions in \<open>b\<close> in increasing order. The functions below follow
  \<open>find_longest_match\<close>, \<open>get_matching_blocks\<close> and \<open>get_opcodes\<close> of that class.
  A block \<open>(i, j, k)\<close> says \<open>a[i:i+k] == b[j:j+k]\<close>.
\<close>

type_synonym match = "nat \<times> nat \<times> nat"

text \<open>
  The inner loop of \<open>find_longest_match\<close> for one row \<open>i\<close>: \<open>for j in b2j.get(a[i], nothing)\<close>.
  The dictionary \<open>j2len\<close> is a function with \<open>0\<close> for an absent key (stored lengths are positive);
  \<open>j2len.get(j-1, 0)\<close> at \<open>j = 0\<close> asks for key \<open>-1\<close>, which is never stored.
\<close>

fun flm_row :: "(nat \<Rightarrow> nat) \<Rightarrow> nat \<Rightarrow> nat list \<Rightarrow> (nat \<Rightarrow> nat) \<Rightarrow> match \<Rightarrow> (nat \<Rightarrow> nat) \<times> match" where
  "flm_row j2len i [] newj2len best = (newj2len, best)"
| "flm_row j2len i (j # js) newj2len (besti, bestj, bestsize) =
     (let k = (if j = 0 then 0 else j2len (j - 1)) + 1
      in flm_row j2len i js (newj2len(j := k))
           (if k > bestsize then (i + 1 - k, j + 1 - k, k) else (besti, bestj, bestsize)))"

text \<open>
  The outer loop \<open>for i in range(alo, ahi)\<close>. The positions \<open>b2j[a[i]]\<close> that pass
  \<open>if j < blo: continue\<close> and \<open>if j >= bhi: break\<close> are those of \<open>[blo, bhi)\<close>, in increasing order.
\<close>

fun flm_rows :: "'a list \<Rightarrow> 'a list \<Rightarrow> nat \<Rightarrow> nat \<Rightarrow> nat list \<Rightarrow> (nat \<Rightarrow> nat) \<Rightarrow> match \<Rightarrow> match" where
  "flm_rows a b blo bhi [] j2len best = best"
| "flm_rows a b blo bhi (i # rows) j2len best =
     (case flm_row j2len i (filter (\<lambda>j. b ! j = a ! i) [blo..<bhi]) (\<lambda>_. 0) best of
        (newj2len, best') \<Rightarrow> flm_rows a b blo bhi rows newj2len best')"

text \<open>
  The two loops that extend the best block by equal elements on each end. (The two further
  loops of the source extend by junk elements only; with no junk they never run.)
\<close>

function extend_left :: "'a list \<Rightarrow> 'a list \<Rightarrow> nat \<Rightarrow> nat \<Rightarrow> match \<Rightarrow> match" where
  "extend_left a b alo blo (besti, bestj, bestsize) =
     (if besti > alo \<and> bestj > blo \<and> a ! (besti - 1) = b ! (bestj - 1)
      then extend_left a b alo blo (besti - 1, bestj - 1, bestsize + 1)
      else (besti, bestj, bestsize))"
  by pat_completeness auto
termination
  by (relation "measure (\<lambda>(a, b, alo, blo, besti, bestj, bestsize). besti)") auto

declare extend_left.simps [simp del]

function extend_right :: "'a list \<Rightarrow> 'a list \<Rightarrow> nat \<Rightarrow> nat \<Rightarrow> match \<Rightarrow> match" where
  "extend_right a b ahi bhi (besti, bestj, bestsize) =
     (if besti + bestsize < ahi \<and> bestj + bestsize < bhi \<and>
         a ! (besti + bestsize) = b ! (bestj + bestsize)
      then extend_right a b ahi bhi (besti, bestj, bestsize + 1)
      else (besti, bestj, bestsize))"
  by pat_completeness auto
termination
  by (relation "measure (\<lambda>(a, b, ahi, bhi, besti, bestj, bestsize). ahi - (besti + bestsize))") auto

declare extend_right.simps [simp del]

definition find_longest_match :: "'a list \<Rightarrow> 'a list \<Rightarrow> nat \<Rightarrow> nat \<Rightarrow> nat \<Rightarrow> nat \<Rightarrow> match" where
  "find_longest_match a b alo ahi blo bhi =
     extend_right a b ahi bhi
       (extend_left a b alo blo
          (flm_rows a b blo bhi [alo..<ahi] (\<lambda>_. 0) (alo, blo, 0)))"

text \<open>A block lies inside the window and its elements agree pairwise.\<close>

definition block_ok :: "'a list \<Rightarrow> 'a list \<Rightarrow> nat \<Rightarrow> nat \<Rightarrow> nat \<Rightarrow> nat \<Rightarrow> match \<Rightarrow> bool" where
  "block_ok a b alo ahi blo bhi m =
     (case m of (i, j, k) \<Rightarrow>
        alo \<le> i \<and> i + k \<le> ahi \<and> blo \<le> j \<and> j + k \<le> bhi \<and> (\<forall>t<k. a ! (i + t) = b ! (j + t)))"

text \<open>Soundness of \<open>find_longest_match\<close>: the block it returns lies in the window and matches.\<close>


lemma flm_row_ok:
  assumes j2: "\<And>j. j2len j > 0 \<Longrightarrow> alo < i \<and> j2len j \<le> i - alo \<and> j2len j \<le> j + 1 - blo \<and> j < bhi
                    \<and> (\<forall>t < j2len j. a ! (i - 1 - t) = b ! (j - t))"
    and js: "\<And>j. j \<in> set js \<Longrightarrow> blo \<le> j \<and> j < bhi \<and> b ! j = a ! i"
    and i: "alo \<le> i"
    and nj: "\<And>j. newj2len j > 0 \<Longrightarrow> newj2len j \<le> i + 1 - alo \<and> newj2len j \<le> j + 1 - blo \<and> j < bhi
                    \<and> (\<forall>t < newj2len j. a ! (i - t) = b ! (j - t))"
    and best: "block_ok a b alo (i + 1) blo bhi best"
    and res: "flm_row j2len i js newj2len best = (nj', best')"
  shows "(\<forall>j. nj' j > 0 \<longrightarrow> nj' j \<le> i + 1 - alo \<and> nj' j \<le> j + 1 - blo \<and> j < bhi
                    \<and> (\<forall>t < nj' j. a ! (i - t) = b ! (j - t)))
         \<and> block_ok a b alo (i + 1) blo bhi best'"
  using js nj best res
proof (induction js arbitrary: newj2len best)
  case Nil
  then show ?case by simp
next
  case (Cons j js)
  obtain bi bj bk where b: "best = (bi, bj, bk)" by (cases best) auto
  define k where "k = (if j = 0 then 0 else j2len (j - 1)) + 1"
  have jj: "blo \<le> j" "j < bhi" "b ! j = a ! i" using Cons.prems(1) by auto
  have kprop: "k \<le> i + 1 - alo \<and> k \<le> j + 1 - blo \<and> (\<forall>t < k. a ! (i - t) = b ! (j - t))"
  proof (cases "j = 0 \<or> j2len (j - 1) = 0")
    case True
    then have "k = 1" by (auto simp: k_def)
    then show ?thesis using jj i by auto
  next
    case False
    then have j0: "j > 0" and pos: "j2len (j - 1) > 0" by auto
    from j2 [OF pos] have h: "alo < i" "j2len (j - 1) \<le> i - alo" "j2len (j - 1) \<le> j - 1 + 1 - blo"
      "\<forall>t < j2len (j - 1). a ! (i - 1 - t) = b ! (j - 1 - t)" by auto
    have k: "k = j2len (j - 1) + 1" using j0 by (simp add: k_def)
    have "a ! (i - t) = b ! (j - t)" if "t < k" for t
    proof (cases t)
      case 0
      then show ?thesis using jj by simp
    next
      case (Suc u)
      then have "u < j2len (j - 1)" using that k by simp
      with h(4) have "a ! (i - 1 - u) = b ! (j - 1 - u)" by blast
      then show ?thesis using Suc by simp
    qed
    then show ?thesis using h j0 k jj by auto
  qed
  let ?best = "if k > bk then (i + 1 - k, j + 1 - k, k) else (bi, bj, bk)"
  have step: "flm_row j2len i (j # js) newj2len best = flm_row j2len i js (newj2len(j := k)) ?best"
    by (simp add: b k_def Let_def)
  have nj_new: "\<And>j'. (newj2len(j := k)) j' > 0 \<Longrightarrow> (newj2len(j := k)) j' \<le> i + 1 - alo \<and>
       (newj2len(j := k)) j' \<le> j' + 1 - blo \<and> j' < bhi \<and>
       (\<forall>t < (newj2len(j := k)) j'. a ! (i - t) = b ! (j' - t))"
    using Cons.prems(2) kprop jj by (auto simp: fun_upd_def)
  have kpos: "k > 0" by (simp add: k_def)
  have "block_ok a b alo (i + 1) blo bhi (i + 1 - k, j + 1 - k, k)"
  proof -
    have "a ! (i + 1 - k + t) = b ! (j + 1 - k + t)" if "t < k" for t
    proof -
      have "k - 1 - t < k" using that by simp
      with kprop have e: "a ! (i - (k - 1 - t)) = b ! (j - (k - 1 - t))" by blast
      have e1: "i - (k - 1 - t) = i + 1 - k + t" using that kprop i by auto
      have e2: "j - (k - 1 - t) = j + 1 - k + t" using that kprop jj by auto
      show ?thesis using e unfolding e1 e2 .
    qed
    then show ?thesis using kprop kpos jj i by (auto simp: block_ok_def)
  qed
  then have best_new: "block_ok a b alo (i + 1) blo bhi ?best"
    using Cons.prems(3) b by simp
  have rest: "flm_row j2len i js (newj2len(j := k)) ?best = (nj', best')"
    using Cons.prems(4) step by simp
  have js': "\<And>j'. j' \<in> set js \<Longrightarrow> blo \<le> j' \<and> j' < bhi \<and> b ! j' = a ! i"
    using Cons.prems(1) by simp
  show ?case by (rule Cons.IH [OF js' nj_new best_new rest])
qed


lemma block_ok_mono: "block_ok a b alo r blo bhi m \<Longrightarrow> r \<le> r' \<Longrightarrow> block_ok a b alo r' blo bhi m"
  by (auto simp: block_ok_def)

lemma flm_rows_ok:
  assumes "rows = [r..<ahi]"
    and "\<And>j. j2len j > 0 \<Longrightarrow> alo < r \<and> j2len j \<le> r - alo \<and> j2len j \<le> j + 1 - blo \<and> j < bhi
                    \<and> (\<forall>t < j2len j. a ! (r - 1 - t) = b ! (j - t))"
    and "alo \<le> r"
    and "block_ok a b alo r blo bhi best"
  shows "block_ok a b alo (max r ahi) blo bhi (flm_rows a b blo bhi rows j2len best)"
  using assms
proof (induction rows arbitrary: r j2len best)
  case Nil
  from Nil.prems(1) [symmetric] have "ahi \<le> r" by auto
  then have "max r ahi = r" by simp
  with Nil show ?case by simp
next
  case (Cons i rows)
  from Cons.prems(1) [symmetric] have ir: "i = r" and lt: "r < ahi" and rows: "rows = [Suc r..<ahi]"
    by (auto simp: upt_eq_Cons_conv)
  let ?js = "filter (\<lambda>j. b ! j = a ! i) [blo..<bhi]"
  obtain nj' best' where res: "flm_row j2len i ?js (\<lambda>_. 0) best = (nj', best')"
    by (cases "flm_row j2len i ?js (\<lambda>_. 0) best") auto
  have j2: "\<And>j. j2len j > 0 \<Longrightarrow> alo < i \<and> j2len j \<le> i - alo \<and> j2len j \<le> j + 1 - blo \<and> j < bhi
                    \<and> (\<forall>t < j2len j. a ! (i - 1 - t) = b ! (j - t))"
    using Cons.prems(2) ir by simp
  have js: "\<And>j. j \<in> set ?js \<Longrightarrow> blo \<le> j \<and> j < bhi \<and> b ! j = a ! i" by simp
  have i: "alo \<le> i" using Cons.prems(3) ir by simp
  have nj: "\<And>j. (\<lambda>_. 0::nat) j > 0 \<Longrightarrow> (\<lambda>_. 0::nat) j \<le> i + 1 - alo \<and> (\<lambda>_. 0::nat) j \<le> j + 1 - blo \<and> j < bhi
                    \<and> (\<forall>t < (\<lambda>_. 0::nat) j. a ! (i - t) = b ! (j - t))" by simp
  have best: "block_ok a b alo (i + 1) blo bhi best"
    using Cons.prems(4) ir by (auto intro: block_ok_mono)
  from flm_row_ok [OF j2 js i nj best res]
  have nj': "\<And>j. nj' j > 0 \<Longrightarrow> nj' j \<le> i + 1 - alo \<and> nj' j \<le> j + 1 - blo \<and> j < bhi
                    \<and> (\<forall>t < nj' j. a ! (i - t) = b ! (j - t))"
    and best': "block_ok a b alo (i + 1) blo bhi best'" by auto
  have nj'': "\<And>j. nj' j > 0 \<Longrightarrow> alo < Suc r \<and> nj' j \<le> Suc r - alo \<and> nj' j \<le> j + 1 - blo \<and> j < bhi
                    \<and> (\<forall>t < nj' j. a ! (Suc r - 1 - t) = b ! (j - t))"
    using nj' ir i by auto
  have "block_ok a b alo (max (Suc r) ahi) blo bhi (flm_rows a b blo bhi rows nj' best')"
    using Cons.IH [OF rows nj''] best' ir i by simp
  moreover have "max (Suc r) ahi = max r ahi" using lt by simp
  ultimately show ?case using res by simp
qed

lemma extend_left_ok:
  "block_ok a b alo ahi blo bhi m \<Longrightarrow> block_ok a b alo ahi blo bhi (extend_left a b alo blo m)"
proof (induction a b alo blo m rule: extend_left.induct)
  case (1 a b alo blo besti bestj bestsize)
  show ?case
  proof (cases "besti > alo \<and> bestj > blo \<and> a ! (besti - 1) = b ! (bestj - 1)")
    case True
    have "a ! (besti - 1 + t) = b ! (bestj - 1 + t)" if "t < bestsize + 1" for t
    proof (cases t)
      case 0
      then show ?thesis using True by simp
    next
      case (Suc u)
      then have "u < bestsize" using that by simp
      then have "a ! (besti + u) = b ! (bestj + u)" using "1.prems" by (simp add: block_ok_def)
      then show ?thesis using Suc True by simp
    qed
    then have "block_ok a b alo ahi blo bhi (besti - 1, bestj - 1, bestsize + 1)"
      using "1.prems" True by (auto simp: block_ok_def)
    from "1.IH" [OF True this] True show ?thesis by (subst extend_left.simps) simp
  next
    case False
    then show ?thesis using "1.prems" by (subst extend_left.simps) auto
  qed
qed

lemma extend_right_ok:
  "block_ok a b alo ahi blo bhi m \<Longrightarrow> block_ok a b alo ahi blo bhi (extend_right a b ahi bhi m)"
proof (induction a b ahi bhi m rule: extend_right.induct)
  case (1 a b ahi bhi besti bestj bestsize)
  show ?case
  proof (cases "besti + bestsize < ahi \<and> bestj + bestsize < bhi \<and>
         a ! (besti + bestsize) = b ! (bestj + bestsize)")
    case True
    have "a ! (besti + t) = b ! (bestj + t)" if "t < bestsize + 1" for t
      using that "1.prems" True by (cases "t = bestsize") (auto simp: block_ok_def)
    then have "block_ok a b alo ahi blo bhi (besti, bestj, bestsize + 1)"
      using "1.prems" True by (auto simp: block_ok_def)
    from "1.IH" [OF True this] True show ?thesis by (subst extend_right.simps) simp
  next
    case False
    then show ?thesis using "1.prems" by (subst extend_right.simps) auto
  qed
qed

lemma find_longest_match_ok:
  assumes "alo \<le> ahi" and "blo \<le> bhi"
  shows "block_ok a b alo ahi blo bhi (find_longest_match a b alo ahi blo bhi)"
proof -
  have "block_ok a b alo alo blo bhi (alo, blo, 0)" using assms by (simp add: block_ok_def)
  then have "block_ok a b alo (max alo ahi) blo bhi
               (flm_rows a b blo bhi [alo..<ahi] (\<lambda>_. 0) (alo, blo, 0))"
    by (intro flm_rows_ok) simp_all
  moreover have "max alo ahi = ahi" using assms by simp
  ultimately show ?thesis
    unfolding find_longest_match_def by (simp add: extend_left_ok extend_right_ok)
qed

lemma flm_rows_empty_window:
  "bhi \<le> blo \<Longrightarrow> flm_rows a b blo bhi rows j2len best = best"
  by (induction rows arbitrary: j2len) simp_all

lemma find_longest_match_degenerate:
  assumes "ahi \<le> alo \<or> bhi \<le> blo"
  shows "find_longest_match a b alo ahi blo bhi = (alo, blo, 0)"
proof -
  have "flm_rows a b blo bhi [alo..<ahi] (\<lambda>_. 0) (alo, blo, 0) = (alo, blo, 0)"
    using assms by (auto simp: flm_rows_empty_window)
  moreover have "extend_left a b alo blo (alo, blo, 0) = (alo, blo, 0)"
    by (subst extend_left.simps) simp
  moreover have "extend_right a b ahi bhi (alo, blo, 0) = (alo, blo, 0)"
    using assms by (subst extend_right.simps) auto
  ultimately show ?thesis by (simp add: find_longest_match_def)
qed

lemma find_longest_match_bounds:
  assumes "find_longest_match a b alo ahi blo bhi = (i, j, k)" and "k \<noteq> 0"
  shows "alo \<le> i \<and> i + k \<le> ahi \<and> blo \<le> j \<and> j + k \<le> bhi"
proof -
  have "\<not> (ahi \<le> alo \<or> bhi \<le> blo)"
    using assms find_longest_match_degenerate [of ahi alo bhi blo a b] by auto
  then have "block_ok a b alo ahi blo bhi (i, j, k)"
    using find_longest_match_ok [of alo ahi blo bhi a b] assms by simp
  then show ?thesis by (simp add: block_ok_def)
qed


text \<open>
  \<open>get_matching_blocks\<close>: the work list \<open>queue\<close> is a stack (\<open>queue.pop()\<close> takes what
  \<open>queue.append\<close> put last), kept here with its top at the head of the list.
\<close>

function gmb_loop :: "'a list \<Rightarrow> 'a list \<Rightarrow> (nat \<times> nat \<times> nat \<times> nat) list \<Rightarrow> match list \<Rightarrow> match list" where
  "gmb_loop a b [] matching_blocks = matching_blocks"
| "gmb_loop a b ((alo, ahi, blo, bhi) # queue) matching_blocks =
     (case find_longest_match a b alo ahi blo bhi of
        (i, j, k) \<Rightarrow>
          if k \<noteq> 0 then
            gmb_loop a b
              ((if i + k < ahi \<and> j + k < bhi then [(i + k, ahi, j + k, bhi)] else []) @
               (if alo < i \<and> blo < j then [(alo, i, blo, j)] else []) @ queue)
              (matching_blocks @ [(i, j, k)])
          else gmb_loop a b queue matching_blocks)"
  by pat_completeness auto
termination
proof (relation "measure (\<lambda>(a, b, queue, matching_blocks).
          sum_list (map (\<lambda>(alo, ahi, blo, bhi). 2 * (ahi - alo) + 1) queue))", goal_cases)
  case 1
  show ?case by simp
next
  case (2 a b alo ahi blo bhi queue matching_blocks i y j k)
  then have "find_longest_match a b alo ahi blo bhi = (i, j, k)" by simp
  from find_longest_match_bounds [OF this] 2 have "alo \<le> i \<and> i + k \<le> ahi" by simp
  with 2 show ?case by auto
next
  case 3
  then show ?case by simp
qed

declare gmb_loop.simps [simp del]

text \<open>The pass that merges adjacent blocks, started from \<open>i1 = j1 = k1 = 0\<close>.\<close>

fun collapse_adjacent :: "match \<Rightarrow> match list \<Rightarrow> match list" where
  "collapse_adjacent (i1, j1, k1) [] = (if k1 \<noteq> 0 then [(i1, j1, k1)] else [])"
| "collapse_adjacent (i1, j1, k1) ((i2, j2, k2) # rest) =
     (if i1 + k1 = i2 \<and> j1 + k1 = j2 then collapse_adjacent (i1, j1, k1 + k2) rest
      else (if k1 \<noteq> 0 then [(i1, j1, k1)] else []) @ collapse_adjacent (i2, j2, k2) rest)"

definition get_matching_blocks :: "'a list \<Rightarrow> 'a list \<Rightarrow> match list" where
  "get_matching_blocks a b =
     (let la = length a; lb = length b;
          matching_blocks = sort (gmb_loop a b [(0, la, 0, lb)] [])
      in collapse_adjacent (0, 0, 0) matching_blocks @ [(la, lb, 0)])"

datatype tag = Replace | Delete | Insert | Equal

type_synonym opcode = "tag \<times> nat \<times> nat \<times> nat \<times> nat"

text \<open>\<open>get_opcodes\<close>: the loop over the matching blocks, with the running positions \<open>i\<close>, \<open>j\<close>.\<close>

fun opcodes_from :: "nat \<Rightarrow> nat \<Rightarrow> match list \<Rightarrow> opcode list" where
  "opcodes_from i j [] = []"
| "opcodes_from i j ((ai, bj, sz) # rest) =
     (if i < ai \<and> j < bj then [(Replace, i, ai, j, bj)]
      else if i < ai then [(Delete, i, ai, j, bj)]
      else if j < bj then [(Insert, i, ai, j, bj)]
      else []) @
     (if sz \<noteq> 0 then [(Equal, ai, ai + sz, bj, bj + sz)] else []) @
     opcodes_from (ai + sz) (bj + sz) rest"

definition get_opcodes :: "'a list \<Rightarrow> 'a list \<Rightarrow> opcode list" where
  "get_opcodes a b = opcodes_from 0 0 (get_matching_blocks a b)"

text \<open>The slice \<open>xs[i:j]\<close> for indices \<open>0 \<le> i\<close>, \<open>0 \<le> j\<close>.\<close>

definition slice :: "'a list \<Rightarrow> nat \<Rightarrow> nat \<Rightarrow> 'a list" where
  "slice xs i j = take (j - i) (drop i xs)"

text \<open>
  Auxiliary notions for reasoning about the blocks: the window \<open>(alo, ahi, blo, bhi)\<close> a block
  covers, one window lying wholly before another in both sequences, and a list of blocks
  that advances monotonically from position \<open>(i, j)\<close> through matching stretches of
  \<open>a\<close> and \<open>b\<close>.
\<close>

type_synonym window = "nat \<times> nat \<times> nat \<times> nat"

definition rect_of :: "match \<Rightarrow> window" where
  "rect_of m = (case m of (i, j, k) \<Rightarrow> (i, i + k, j, j + k))"

definition before :: "window \<Rightarrow> window \<Rightarrow> bool" where
  "before r1 r2 =
     (case r1 of (alo1, ahi1, blo1, bhi1) \<Rightarrow>
      case r2 of (alo2, ahi2, blo2, bhi2) \<Rightarrow> ahi1 \<le> alo2 \<and> bhi1 \<le> blo2)"

definition sep :: "window \<Rightarrow> window \<Rightarrow> bool" where
  "sep r1 r2 = (before r1 r2 \<or> before r2 r1)"

definition inside :: "window \<Rightarrow> window \<Rightarrow> bool" where
  "inside r1 r2 =
     (case r1 of (alo1, ahi1, blo1, bhi1) \<Rightarrow>
      case r2 of (alo2, ahi2, blo2, bhi2) \<Rightarrow>
        alo2 \<le> alo1 \<and> ahi1 \<le> ahi2 \<and> blo2 \<le> blo1 \<and> bhi1 \<le> bhi2)"

fun chain_ok :: "'a list \<Rightarrow> 'a list \<Rightarrow> nat \<Rightarrow> nat \<Rightarrow> match list \<Rightarrow> bool" where
  "chain_ok a b i j [] = True"
| "chain_ok a b i j ((ai, bj, sz) # rest) =
     (i \<le> ai \<and> j \<le> bj \<and> block_ok a b 0 (length a) 0 (length b) (ai, bj, sz) \<and>
      chain_ok a b (ai + sz) (bj + sz) rest)"

definition blocks_ok :: "'a list \<Rightarrow> 'a list \<Rightarrow> match list \<Rightarrow> bool" where
  "blocks_ok a b M = list_all (\<lambda>m. block_ok a b 0 (length a) 0 (length b) m \<and> 0 < snd (snd m)) M"

definition queue_ok :: "'a list \<Rightarrow> 'a list \<Rightarrow> window list \<Rightarrow> bool" where
  "queue_ok a b Q = list_all (\<lambda>r. inside r (0, length a, 0, length b) \<and> fst r \<le> fst (snd r) \<and> fst (snd (snd r)) \<le> snd (snd (snd r))) Q"

definition step :: "match \<Rightarrow> match \<Rightarrow> bool" where
  "step m1 m2 = (case m1 of (i1, j1, k1) \<Rightarrow> case m2 of (i2, j2, k2) \<Rightarrow> i1 + k1 \<le> i2 \<and> j1 + k1 \<le> j2)"


section \<open>Rendering primitives\<close>

text \<open>\<open>html.escape(s)\<close> with \<open>quote=True\<close>.\<close>

definition escape_char :: "char \<Rightarrow> string" where
  "escape_char c =
     (if c = CHR ''&'' then ''&amp;''
      else if c = CHR ''<'' then ''&lt;''
      else if c = CHR ''>'' then ''&gt;''
      else if c = CHR 0x22 then ''&quot;''
      else if c = CHR 0x27 then ''&#x27;''
      else [c])"

definition html_escape :: "string \<Rightarrow> string" where
  "html_escape s = concat (map escape_char s)"

text \<open>
  \<open>re.split(r'(\s+)', line)\<close>: the text between the whitespace runs and, because of the group,
  the runs themselves; the first and the last piece may be empty.
\<close>

fun re_split_ws :: "string \<Rightarrow> string \<Rightarrow> string list" where
  "re_split_ws cur [] = [cur]"
| "re_split_ws cur (c # cs) =
     (if is_space c
      then cur # (c # takeWhile is_space cs) # re_split_ws [] (dropWhile is_space cs)
      else re_split_ws (cur @ [c]) cs)"

text \<open>\<open>words = re.split(r'(\s+)', line); words = [w for w in words if w]\<close>\<close>

definition word_tokens :: "string \<Rightarrow> string list" where
  "word_tokens line = filter (\<lambda>w. w \<noteq> []) (re_split_ws [] line)"

text \<open>
  A rendered word-level segment: its kind and its (escaped) text. Both word-level routines
  emit either bare text or \<open><span class='...'>text</span>\<close>; the kind fixes the class.
\<close>

datatype style = Plain | Removed | Added | Modified | Unchanged

type_synonym segment = "style \<times> string"

definition render_span :: "(style \<Rightarrow> string option) \<Rightarrow> segment \<Rightarrow> string" where
  "render_span cls seg =
     (case cls (fst seg) of
        None \<Rightarrow> snd seg
      | Some c \<Rightarrow> ''<span class='' @ [CHR 0x27] @ c @ [CHR 0x27] @ ''>'' @ snd seg @ ''</span>'')"

section \<open>Lexical diff engine (comparator.py)\<close>

text \<open>The classes of \<open>PDFComparator._generate_word_diff_html\<close>; it emits no other kind.\<close>

fun word_class :: "style \<Rightarrow> string option" where
  "word_class Removed = Some ''word-deleted''"
| "word_class Added = Some ''word-added''"
| "word_class _ = None"

text \<open>The body of the opcode loop of \<open>_generate_word_diff_html\<close>: what one opcode appends.\<close>

fun word_diff_op :: "tag \<Rightarrow> string \<Rightarrow> string \<Rightarrow> segment list" where
  "word_diff_op Equal escaped1 escaped2 = [(Plain, escaped2)]"
| "word_diff_op Delete escaped1 escaped2 = [(Removed, escaped1)]"
| "word_diff_op Insert escaped1 escaped2 = [(Added, escaped2)]"
| "word_diff_op Replace escaped1 escaped2 =
     (if strip escaped1 \<noteq> [] then [(Removed, escaped1)] else []) @
     (if strip escaped2 \<noteq> [] then [(Added, escaped2)] else [])"

definition word_diff_segments :: "string \<Rightarrow> string \<Rightarrow> segment list" where
  "word_diff_segments line1 line2 =
     (let words1 = word_tokens line1; words2 = word_tokens line2
      in concat (map (\<lambda>(tag, i1, i2, j1, j2).
                    word_diff_op tag (html_escape (concat (slice words1 i1 i2)))
                                     (html_escape (concat (slice words2 j1 j2))))
                  (get_opcodes words1 words2)))"

text \<open>\<open>PDFComparator._generate_word_diff_html\<close>: \<open>"".join(filter(None, html_out))\<close>\<close>

definition generate_word_diff_html :: "string \<Rightarrow> string \<Rightarrow> string" where
  "generate_word_diff_html line1 line2 =
     concat (filter (\<lambda>h. h \<noteq> []) (map (render_span word_class) (word_diff_segments line1 line2)))"

text \<open>
  The pattern of \<open>_format_links\<close>, \<open>((?:https?://|ftp://|www\.)[^\s/$.?#].[^\s]*)\<close>, tried at the
  start of a text: one of the four prefixes, one character that is neither whitespace nor
  one of \<open>/ $ . ? #\<close>, one character other than a newline, then every character up to the next
  whitespace. The result is the match and the text after it.
\<close>

definition url_prefixes :: "string list" where
  "url_prefixes = [''https://'', ''http://'', ''ftp://'', ''www.'']"

fun match_url_tail :: "string \<Rightarrow> (string \<times> string) option" where
  "match_url_tail (c1 # c2 # cs) =
     (if \<not> is_space c1 \<and> c1 \<notin> set ''/$.?#'' \<and> c2 \<noteq> CHR 0x0A
      then Some (c1 # c2 # takeWhile (\<lambda>c. \<not> is_space c) cs, dropWhile (\<lambda>c. \<not> is_space c) cs)
      else None)"
| "match_url_tail _ = None"

definition match_url :: "string \<Rightarrow> (string \<times> string) option" where
  "match_url s =
     (case filter (\<lambda>p. prefix p s) url_prefixes of
        [] \<Rightarrow> None
      | p # _ \<Rightarrow>
          (case match_url_tail (drop (length p) s) of
             None \<Rightarrow> None
           | Some (t, rest) \<Rightarrow> Some (p @ t, rest)))"

lemma match_url_tail_shorter: "match_url_tail s = Some (t, rest) \<Longrightarrow> length rest < length s"
  by (cases s rule: match_url_tail.cases)
     (auto split: if_splits simp: less_Suc_eq_le length_dropWhile_le le_SucI)

lemma match_url_shorter [termination_simp]:
  "match_url s = Some (u, rest) \<Longrightarrow> length rest < length s"
  by (auto simp: match_url_def split: list.splits option.splits
           dest!: match_url_tail_shorter)

text \<open>
  The \<open>finditer\<close> loop of \<open>_format_links\<close>: \<open>parts\<close> alternates the text before a match
  (\<open>line[last_end:start]\<close>, here \<open>pending\<close>) and the match; the text after the last match
  closes the list. Matches are taken left to right and do not overlap.
\<close>

datatype piece = Text string | Link string

function link_pieces :: "string \<Rightarrow> string \<Rightarrow> piece list" where
  "link_pieces pending [] = [Text pending]"
| "link_pieces pending (c # cs) =
     (case match_url (c # cs) of
        Some (url, rest) \<Rightarrow> Text pending # Link url # link_pieces [] rest
      | None \<Rightarrow> link_pieces (pending @ [c]) cs)"
  by pat_completeness auto
termination
  by (relation "measure (\<lambda>(pending, s). length s)") (auto dest: match_url_shorter)

definition href_of :: "string \<Rightarrow> string" where
  "href_of url =
     (if prefix ''www.'' url \<and>
         \<not> (prefix ''http://'' url \<or> prefix ''https://'' url \<or> prefix ''ftp://'' url)
      then ''http://'' @ url else url)"

fun render_piece :: "piece \<Rightarrow> string" where
  "render_piece (Text t) = html_escape t"
| "render_piece (Link url) =
     ''<a href='' @ [CHR 0x22] @ html_escape (href_of url) @ [CHR 0x22] @
     '' target='' @ [CHR 0x22] @ ''_blank'' @ [CHR 0x22] @
     '' title='' @ [CHR 0x22] @ ''Open link: '' @ html_escape (href_of url) @ [CHR 0x22] @ ''>'' @
     html_escape url @ ''</a>''"

text \<open>\<open>PDFComparator._format_links\<close>\<close>

definition format_links :: "string \<Rightarrow> string" where
  "format_links line = concat (map render_piece (link_pieces [] line))"




text \<open>The four line templates of \<open>_generate_diff_html_with_word_level\<close>.\<close>

definition diff_line :: "string \<Rightarrow> string \<Rightarrow> string \<Rightarrow> string" where
  "diff_line cls marker content =
     ''<span class='' @ [CHR 0x27] @ ''diff-line '' @ cls @ [CHR 0x27] @ ''><span class='' @
     [CHR 0x27] @ ''diff-marker'' @ [CHR 0x27] @ ''>'' @ marker @ ''</span>'' @ content @ ''</span>''"

definition equal_line :: "string \<Rightarrow> string" where
  "equal_line line = diff_line ''diff-equal'' '' '' (format_links (html_escape line))"

definition added_line :: "string \<Rightarrow> string" where
  "added_line line = diff_line ''diff-added'' ''+'' (format_links (html_escape line))"

definition deleted_line :: "string \<Rightarrow> string" where
  "deleted_line line = diff_line ''diff-deleted'' ''-'' (format_links (html_escape line))"

definition modified_line :: "string \<Rightarrow> string \<Rightarrow> string" where
  "modified_line line1 line2 = diff_line ''diff-modified'' ''*'' (generate_word_diff_html line1 line2)"

record summary =
  lines_added :: nat
  lines_deleted :: nat
  lines_modified :: nat

text \<open>
  One pass of \<open>for i in range(max_len)\<close> in the replace branch: a side past its span is the
  empty string, and the three tests are the truth values of \<open>line1\<close> and \<open>line2\<close>.
\<close>

definition replace_row :: "string list \<Rightarrow> string list \<Rightarrow> nat \<Rightarrow> nat \<Rightarrow> nat \<Rightarrow> nat \<Rightarrow> nat \<Rightarrow> string list" where
  "replace_row text1_lines text2_lines i1 len1 j1 len2 i =
     (let line1 = (if i < len1 then text1_lines ! (i1 + i) else []);
          line2 = (if i < len2 then text2_lines ! (j1 + i) else [])
      in if line1 \<noteq> [] \<and> line2 \<noteq> [] then [modified_line line1 line2]
         else if line2 \<noteq> [] then [added_line line2]
         else if line1 \<noteq> [] then [deleted_line line1]
         else [])"

text \<open>The body of the opcode loop: what one opcode adds to \<open>html_out\<close> and to the counters.\<close>

fun diff_opcode :: "string list \<Rightarrow> string list \<Rightarrow> opcode \<Rightarrow> string list \<times> summary \<Rightarrow> string list \<times> summary" where
  "diff_opcode text1_lines text2_lines (Equal, i1, i2, j1, j2) (html_out, s) =
     (html_out @ map equal_line (slice text1_lines i1 i2), s)"
| "diff_opcode text1_lines text2_lines (Insert, i1, i2, j1, j2) (html_out, s) =
     (html_out @ map added_line (slice text2_lines j1 j2),
      s\<lparr>lines_added := lines_added s + length (slice text2_lines j1 j2)\<rparr>)"
| "diff_opcode text1_lines text2_lines (Delete, i1, i2, j1, j2) (html_out, s) =
     (html_out @ map deleted_line (slice text1_lines i1 i2),
      s\<lparr>lines_deleted := lines_deleted s + length (slice text1_lines i1 i2)\<rparr>)"
| "diff_opcode text1_lines text2_lines (Replace, i1, i2, j1, j2) (html_out, s) =
     (let len1 = i2 - i1; len2 = j2 - j1; max_len = max len1 len2
      in (html_out @ concat (map (replace_row text1_lines text2_lines i1 len1 j1 len2) [0..<max_len]),
          s\<lparr>lines_modified := lines_modified s + max len1 len2\<rparr>))"

text \<open>\<open>PDFComparator._generate_diff_html_with_word_level\<close>: the markup and the summary it stores.\<close>

definition generate_diff_html_with_word_level :: "string list \<Rightarrow> string list \<Rightarrow> string \<times> summary" where
  "generate_diff_html_with_word_level text1_lines text2_lines =
     (case fold (diff_opcode text1_lines text2_lines) (get_opcodes text1_lines text2_lines)
             ([], \<lparr>lines_added = 0, lines_deleted = 0, lines_modified = 0\<rparr>) of
        (html_out, s) \<Rightarrow> (join_with [CHR 0x0A] html_out, s))"

text \<open>
  \<open>PDFComparator.compare\<close>. The two calls of \<open>extract_text_from_file\<close> are inputs: each either
  returns its pair \<open>(text, error)\<close> or raises. The calls made after extraction
  (\<open>_preprocess_text\<close> twice, \<open>_generate_diff_html_with_word_level\<close>) are total functions
  here; what the \<open>except Exception\<close> clause does when one of them raises is modelled by
  \<open>fault\<close>, which names, for each of these calls, the exception it raises, if any.
\<close>

datatype 'a outcome = Raise string | Return 'a

type_synonym extraction = "(string option \<times> string option) outcome"

datatype stage = Preprocess1 | Preprocess2 | GenerateDiff

record comparator_state =
  success :: bool
  error_message :: "string option"
  is_identical :: bool
  is_identical_raw :: bool
  text1_raw :: "string option"
  text2_raw :: "string option"
  text1_processed_lines :: "string list option"
  text2_processed_lines :: "string list option"
  diff_html :: "string option"
  summary :: summary

text \<open>The truth value of an \<open>Optional[str]\<close>: neither \<open>None\<close> nor empty.\<close>

fun truthy :: "string option \<Rightarrow> bool" where
  "truthy None = False"
| "truthy (Some s) = (s \<noteq> [])"

fun str_of :: "string option \<Rightarrow> string" where
  "str_of None = ''None''"
| "str_of (Some s) = s"

text \<open>The assignments at the head of \<open>compare\<close>.\<close>

definition reset_state :: comparator_state where
  "reset_state =
     \<lparr>success = False, error_message = None, is_identical = False, is_identical_raw = False,
      text1_raw = None, text2_raw = None, text1_processed_lines = None,
      text2_processed_lines = None, diff_html = None,
      summary = \<lparr>lines_added = 0, lines_deleted = 0, lines_modified = 0\<rparr>\<rparr>"

text \<open>
  The end of the \<open>try\<close> block, from the comparison of the processed lines on: the identical
  fast path, or the diff. \<open>Inl e\<close> is the exception \<open>e\<close> leaving the block, \<open>Inr r\<close> is \<open>return r\<close>.
\<close>

definition compare_lines ::
  "(stage \<Rightarrow> string option) \<Rightarrow> bool \<Rightarrow> string list \<Rightarrow> string list \<Rightarrow> comparator_state
     \<Rightarrow> (string + bool) \<times> comparator_state" where
  "compare_lines fault raw_check_possible lines1 lines2 s =
     (if lines1 = lines2
      then (Inr True, s\<lparr>is_identical := True, success := True,
                        is_identical_raw := raw_check_possible \<and> is_identical_raw s\<rparr>)
      else (case fault GenerateDiff of
              Some e \<Rightarrow> (Inl e, s)
            | None \<Rightarrow>
                (case generate_diff_html_with_word_level lines1 lines2 of
                   (html, summ) \<Rightarrow>
                     (Inr True, s\<lparr>summary := summ, diff_html := Some html, success := True\<rparr>))))"

text \<open>
  The \<open>try\<close> block of \<open>compare\<close>, in two parts: what follows the extraction of both texts
  (the raw fast path, the two preprocessing calls, the comparison of the lines), and the
  extraction with its three early returns.
\<close>

definition compare_extracted ::
  "options \<Rightarrow> (stage \<Rightarrow> string option) \<Rightarrow> string option \<Rightarrow> string option \<Rightarrow> comparator_state
     \<Rightarrow> (string + bool) \<times> comparator_state" where
  "compare_extracted opts fault t1 t2 s2 =
     (let raw_check_possible = (\<not> (ignore_case opts \<or> ignore_punctuation opts \<or> de_hyphenate opts))
      in if raw_check_possible \<and> t1 = t2
         then (Inr True, s2\<lparr>is_identical_raw := True, is_identical := True, success := True\<rparr>)
         else
           (case fault Preprocess1 of
              Some e \<Rightarrow> (Inl e, s2)
            | None \<Rightarrow>
                (let s3 = s2\<lparr>text1_processed_lines := preprocess_text opts t1\<rparr>
                 in (case fault Preprocess2 of
                       Some e \<Rightarrow> (Inl e, s3)
                     | None \<Rightarrow>
                         (let s4 = s3\<lparr>text2_processed_lines := preprocess_text opts t2\<rparr>
                          in (case (text1_processed_lines s4, text2_processed_lines s4) of
                                (Some lines1, Some lines2) \<Rightarrow>
                                  compare_lines fault raw_check_possible lines1 lines2 s4
                              | _ \<Rightarrow>
                                  (Inr False,
                                   s4\<lparr>error_message :=
                                        Some (if truthy (error_message s4)
                                              then str_of (error_message s4)
                                              else ''Text preprocessing failed.'')\<rparr>)))))))"

definition compare_try ::
  "options \<Rightarrow> extraction \<Rightarrow> extraction \<Rightarrow> (stage \<Rightarrow> string option) \<Rightarrow> comparator_state
     \<Rightarrow> (string + bool) \<times> comparator_state" where
  "compare_try opts doc1 doc2 fault s0 =
     (case doc1 of
        Raise e \<Rightarrow> (Inl e, s0)
      | Return (t1, err1) \<Rightarrow>
          (let s1 = s0\<lparr>text1_raw := t1\<rparr>
           in if truthy err1
              then (Inr False, s1\<lparr>error_message := Some (''Error in Document 1: '' @ str_of err1)\<rparr>)
              else
                (case doc2 of
                   Raise e \<Rightarrow> (Inl e, s1)
                 | Return (t2, err2) \<Rightarrow>
                     (let s2 = s1\<lparr>text2_raw := t2\<rparr>
                      in if truthy err2
                         then (Inr False,
                               s2\<lparr>error_message := Some (''Error in Document 2: '' @ str_of err2)\<rparr>)
                         else if t1 = None \<or> t2 = None
                         then (Inr False,
                               s2\<lparr>error_message := Some ''Text extraction failed unexpectedly.''\<rparr>)
                         else compare_extracted opts fault t1 t2 s2))))"

text \<open>
  \<open>compare\<close>: the reset, the \<open>try\<close> block, and the \<open>except Exception as e\<close> clause, which
  stores the message, clears \<open>success\<close> and returns \<open>True\<close>. The result is the returned boolean
  and the final fields.
\<close>

definition compare :: "options \<Rightarrow> extraction \<Rightarrow> extraction \<Rightarrow> (stage \<Rightarrow> string option) \<Rightarrow> bool \<times> comparator_state" where
  "compare opts doc1 doc2 fault =
     (case compare_try opts doc1 doc2 fault reset_state of
        (Inr r, s) \<Rightarrow> (r, s)
      | (Inl e, s) \<Rightarrow>
          (True, s\<lparr>error_message := Some (''Unexpected error during basic comparison: '' @ e),
                   success := False\<rparr>))"

text \<open>The sum \<open>lines_added + lines_deleted + lines_modified\<close> of a summary.\<close>

definition total_changes :: "summary \<Rightarrow> nat" where
  "total_changes s = lines_added s + lines_deleted s + lines_modified s"

text \<open>What the \<open>except\<close> clause of \<open>compare\<close> leaves for an exception \<open>e\<close>.\<close>

definition caught :: "string \<Rightarrow> bool \<times> comparator_state \<Rightarrow> bool" where
  "caught e r = (fst r = True \<and> success (snd r) = False \<and>
      error_message (snd r) = Some (''Unexpected error during basic comparison: '' @ e))"

section \<open>Semantic comparison (llm_comparator.py)\<close>

subsection \<open>Token chunker\<close>

text \<open>
  The tokenizer (\<open>tiktoken\<close>, encoding \<open>cl100k_base\<close>) is outside the repository: the chunker is
  modelled over any pair of \<open>encode\<close> and \<open>decode\<close> functions. Token counts are Python
  integers (a difference of two counts may be negative).
\<close>

record tokenizer =
  encode :: "string \<Rightarrow> nat list"
  decode :: "nat list \<Rightarrow> string"

text \<open>\<open>GroqPDFComparator.__init__\<close>: \<open>self.max_chunk_tokens = max(max_chunk_tokens, 500)\<close>\<close>

definition init_max_chunk_tokens :: "int \<Rightarrow> int" where
  "init_max_chunk_tokens max_chunk_tokens = max max_chunk_tokens 500"

definition separator :: string where
  "separator = [CHR 0x0A, CHR 0x0A]"

text \<open>
  \<open>re.split(r'\n\s*\n', text)\<close>. At a newline the pattern matches when the whitespace run after
  it holds another newline; the match ends with the last newline of that run, and what is
  left of the run opens the next part.
\<close>

definition after_break :: "string \<Rightarrow> string" where
  "after_break cs =
     rev (takeWhile (\<lambda>c. c \<noteq> CHR 0x0A) (rev (takeWhile is_space cs))) @ dropWhile is_space cs"

lemma length_after_break [termination_simp]: "length (after_break cs) < Suc (length cs)"
proof -
  have "length (takeWhile (\<lambda>c. c \<noteq> CHR 0x0A) (rev (takeWhile is_space cs)))
        \<le> length (takeWhile is_space cs)"
    by (metis length_rev length_takeWhile_le)
  moreover have "length (takeWhile is_space cs) + length (dropWhile is_space cs) = length cs"
    by (metis length_append takeWhile_dropWhile_id)
  ultimately show ?thesis by (simp add: after_break_def)
qed

fun para_split :: "string \<Rightarrow> string list" where
  "para_split [] = [[]]"
| "para_split (c # cs) =
     (if c = CHR 0x0A \<and> CHR 0x0A \<in> set (takeWhile is_space cs)
      then [] # para_split (after_break cs)
      else (case para_split cs of p # ps \<Rightarrow> (c # p) # ps | [] \<Rightarrow> [[c]]))"

text \<open>
  \<open>re.split(r'(?<=[.!?])\s+', text)\<close>: a whitespace run is a separator when the character
  before it is one of \<open>. ! ?\<close>.
\<close>

fun sentence_split :: "string \<Rightarrow> string \<Rightarrow> string list" where
  "sentence_split cur [] = [cur]"
| "sentence_split cur (c # cs) =
     (if is_space c \<and> cur \<noteq> [] \<and> last cur \<in> set ''.!?''
      then cur # sentence_split [] (dropWhile is_space cs)
      else sentence_split (cur @ [c]) cs)"

text \<open>\<open>text.split('\n')\<close>\<close>

fun split_on :: "char \<Rightarrow> string \<Rightarrow> string list" where
  "split_on delim [] = [[]]"
| "split_on delim (c # cs) =
     (if c = delim then [] # split_on delim cs
      else (case split_on delim cs of p # ps \<Rightarrow> (c # p) # ps | [] \<Rightarrow> [[c]]))"

text \<open>\<open>text.split()\<close>: the maximal runs of non-whitespace characters.\<close>

fun split_words :: "string \<Rightarrow> string list" where
  "split_words [] = []"
| "split_words (c # cs) =
     (if is_space c then split_words (dropWhile is_space cs)
      else (c # takeWhile (\<lambda>c. \<not> is_space c) cs) # split_words (dropWhile (\<lambda>c. \<not> is_space c) cs))"

text \<open>The cascade that chooses the parts: paragraphs, else sentences, else lines, else words.\<close>

definition split_parts :: "string \<Rightarrow> string list" where
  "split_parts text =
     (let stripped = strip text; parts = para_split stripped
      in if length parts \<le> 1
         then (let parts = sentence_split [] stripped
               in if length parts \<le> 1
                  then (let parts = split_on (CHR 0x0A) stripped
                        in if length parts \<le> 1 then split_words stripped else parts)
                  else parts)
         else parts)"

text \<open>
  The loop \<open>for word in words\<close> over the words of a part whose own token count exceeds the
  budget; the state is \<open>(chunks, sub_chunk, sub_chunk_tokens)\<close>.
\<close>

fun pack_words :: "tokenizer \<Rightarrow> int \<Rightarrow> string list \<Rightarrow> string list \<times> string \<times> int \<Rightarrow> string list \<times> string \<times> int" where
  "pack_words tk max_chunk_tokens [] st = st"
| "pack_words tk max_chunk_tokens (word # words) (chunks, sub_chunk, sub_chunk_tokens) =
     (let word_prefix = (if sub_chunk \<noteq> [] then separator else []);
          word_token_estimate =
            int (length (encode tk (word_prefix @ word))) - int (length (encode tk word_prefix))
      in if sub_chunk_tokens + word_token_estimate \<le> max_chunk_tokens
         then pack_words tk max_chunk_tokens words
                (chunks, sub_chunk @ (if sub_chunk \<noteq> [] then '' '' else []) @ word,
                 sub_chunk_tokens + word_token_estimate)
         else (let chunks1 = (if sub_chunk \<noteq> [] then chunks @ [sub_chunk] else chunks);
                   word_alone_tokens = int (length (encode tk word))
               in if word_alone_tokens \<le> max_chunk_tokens
                  then pack_words tk max_chunk_tokens words (chunks1, word, word_alone_tokens)
                  else pack_words tk max_chunk_tokens words
                         (chunks1 @ [decode tk (take (nat max_chunk_tokens) (encode tk word))], [], 0)))"

text \<open>
  The loop \<open>for i, part in enumerate(parts)\<close>; the state is
  \<open>(chunks, current_chunk_parts, current_token_count)\<close>.
\<close>

fun pack_parts :: "tokenizer \<Rightarrow> int \<Rightarrow> string list \<Rightarrow> string list \<times> string list \<times> int \<Rightarrow> string list \<times> string list \<times> int" where
  "pack_parts tk max_chunk_tokens [] st = st"
| "pack_parts tk max_chunk_tokens (p # ps) (chunks, current_chunk_parts, current_token_count) =
     (let part = strip p
      in if part = [] then pack_parts tk max_chunk_tokens ps (chunks, current_chunk_parts, current_token_count)
         else
           (let part_tokens = int (length (encode tk part))
            in if part_tokens > max_chunk_tokens
               then
                 (case (if current_chunk_parts \<noteq> []
                        then (chunks @ [join_with separator current_chunk_parts], [], 0)
                        else (chunks, current_chunk_parts, current_token_count)) of
                    (chunks1, current1, count1) \<Rightarrow>
                      (case pack_words tk max_chunk_tokens (split_words part) (chunks1, [], 0) of
                         (chunks2, sub_chunk, sub_chunk_tokens) \<Rightarrow>
                           pack_parts tk max_chunk_tokens ps
                             (if sub_chunk \<noteq> [] then chunks2 @ [sub_chunk] else chunks2, current1, count1)))
               else
                 (let separator_tokens = int (length (encode tk separator));
                      potential_tokens =
                        current_token_count + (if current_chunk_parts \<noteq> [] then separator_tokens else 0) +
                        part_tokens
                  in if potential_tokens \<le> max_chunk_tokens
                     then pack_parts tk max_chunk_tokens ps
                            (chunks, current_chunk_parts @ [part], potential_tokens)
                     else pack_parts tk max_chunk_tokens ps
                            (if current_chunk_parts \<noteq> []
                             then chunks @ [join_with separator current_chunk_parts] else chunks,
                             [part], part_tokens))))"

text \<open>\<open>GroqPDFComparator._chunk_text_by_tokens\<close>\<close>

definition chunk_text_by_tokens :: "tokenizer \<Rightarrow> int \<Rightarrow> string \<Rightarrow> string list" where
  "chunk_text_by_tokens tk max_chunk_tokens text =
     (if text = [] then []
      else
        (case pack_parts tk max_chunk_tokens (split_parts text) ([], [], 0) of
           (chunks, current_chunk_parts, current_token_count) \<Rightarrow>
             filter (\<lambda>chunk. strip chunk \<noteq> [])
               (if current_chunk_parts \<noteq> []
                then chunks @ [join_with separator current_chunk_parts] else chunks)))"

text \<open>
  A small tokenizer to run the chunker on: one token per character, except that a blank
  line \<open>\n\n\<close> is one token (number 271).
\<close>

fun char_encode :: "string \<Rightarrow> nat list" where
  "char_encode [] = []"
| "char_encode [c] = [of_char c]"
| "char_encode (c # d # cs) =
     (if c = CHR 0x0A \<and> d = CHR 0x0A then 271 # char_encode cs
      else of_char c # char_encode (d # cs))"

definition char_decode :: "nat list \<Rightarrow> string" where
  "char_decode ts = concat (map (\<lambda>t. if t = 271 then [CHR 0x0A, CHR 0x0A] else [char_of t]) ts)"

definition char_tokenizer :: tokenizer where
  "char_tokenizer = \<lparr>encode = char_encode, decode = char_decode\<rparr>"

subsection \<open>Word-level rendering of the semantic path\<close>

text \<open>\<open>escaped.replace('\n', '<br>\n')\<close>\<close>

definition nl_to_br :: "string \<Rightarrow> string" where
  "nl_to_br s = concat (map (\<lambda>c. if c = CHR 0x0A then ''<br>'' @ [CHR 0x0A] else [c]) s)"

text \<open>The classes of \<open>GroqPDFComparator._render_word_diff_html\<close>.\<close>

fun llm_class :: "style \<Rightarrow> string option" where
  "llm_class Plain = None"
| "llm_class Unchanged = Some ''llm-word status-equal''"
| "llm_class Removed = Some ''llm-word status-deleted''"
| "llm_class Added = Some ''llm-word status-added''"
| "llm_class Modified = Some ''llm-word status-modified''"

text \<open>The test \<open>escaped.strip() and escaped != '<br>\n'\<close> that decides whether a body gets a span.\<close>

definition worth_styling :: "string \<Rightarrow> bool" where
  "worth_styling escaped = (strip escaped \<noteq> [] \<and> escaped \<noteq> ''<br>'' @ [CHR 0x0A])"

text \<open>The body of the opcode loop of \<open>_render_word_diff_html\<close>: what one opcode appends.\<close>

fun render_word_op :: "tag \<Rightarrow> string \<Rightarrow> string \<Rightarrow> segment list" where
  "render_word_op Equal escaped1 escaped2 = [(Unchanged, escaped2)]"
| "render_word_op Delete escaped1 escaped2 =
     (if worth_styling escaped1 then [(Removed, escaped1)] else [(Plain, escaped1)])"
| "render_word_op Insert escaped1 escaped2 =
     (if worth_styling escaped2 then [(Added, escaped2)] else [(Plain, escaped2)])"
| "render_word_op Replace escaped1 escaped2 =
     (if worth_styling escaped2 then [(Modified, escaped2)]
      else if strip escaped1 = [] \<and> escaped2 \<noteq> [] then [(Plain, escaped2)]
      else if strip escaped1 \<noteq> [] \<and> strip escaped2 = [] then [(Removed, escaped1)]
      else if escaped1 \<noteq> [] \<and> escaped2 \<noteq> [] then [(Plain, escaped2)]
      else [])"

definition render_word_diff_segments :: "string \<Rightarrow> string \<Rightarrow> segment list" where
  "render_word_diff_segments text1 text2 =
     (let words1 = word_tokens text1; words2 = word_tokens text2
      in concat (map (\<lambda>(tag, i1, i2, j1, j2).
                    render_word_op tag (nl_to_br (html_escape (concat (slice words1 i1 i2))))
                                       (nl_to_br (html_escape (concat (slice words2 j1 j2)))))
                  (get_opcodes words1 words2)))"

text \<open>\<open>GroqPDFComparator._render_word_diff_html\<close>\<close>

definition render_word_diff_html :: "string \<Rightarrow> string \<Rightarrow> string" where
  "render_word_diff_html text1 text2 =
     concat (map (render_span llm_class) (render_word_diff_segments text1 text2))"

subsection \<open>Change blocks, their rendering and the summary\<close>

datatype status = StEqual | StAdded | StDeleted | StModified

record change_block =
  status :: status
  text1 :: string
  text2 :: string

text \<open>\<open>GroqPDFComparator._render_change_blocks_html\<close>\<close>

definition block_html :: "change_block \<Rightarrow> string" where
  "block_html block =
     (case status block of
        StEqual \<Rightarrow>
          (if text2 block \<noteq> [] then render_span llm_class (Unchanged, nl_to_br (html_escape (text2 block))) else [])
      | StDeleted \<Rightarrow>
          (if text1 block \<noteq> [] then render_span llm_class (Removed, nl_to_br (html_escape (text1 block))) else [])
      | StAdded \<Rightarrow>
          (if text2 block \<noteq> [] then render_span llm_class (Added, nl_to_br (html_escape (text2 block))) else [])
      | StModified \<Rightarrow> render_word_diff_html (text1 block) (text2 block))"

definition render_change_blocks_html :: "change_block list \<Rightarrow> string" where
  "render_change_blocks_html change_blocks =
     ''<div class='' @ [CHR 0x27] @ ''diff-llm-container-inner'' @ [CHR 0x27] @ ''>'' @
     concat (filter (\<lambda>h. h \<noteq> []) (map block_html change_blocks)) @ ''</div>''"

record llm_summary =
  added_chars :: nat
  deleted_chars :: nat
  modified_blocks :: nat
  modified_chars :: nat

definition default_summary :: llm_summary where
  "default_summary = \<lparr>added_chars = 0, deleted_chars = 0, modified_blocks = 0, modified_chars = 0\<rparr>"

text \<open>
  The inner loop of \<open>_calculate_summary\<close> over the word opcodes of a modified block: the
  pair \<open>(mod_added_net, mod_deleted_net)\<close>.
\<close>

fun modified_net :: "string list \<Rightarrow> string list \<Rightarrow> opcode \<Rightarrow> nat \<times> nat \<Rightarrow> nat \<times> nat" where
  "modified_net words1 words2 (Insert, i1, i2, j1, j2) (mod_added_net, mod_deleted_net) =
     (mod_added_net + length (concat (slice words2 j1 j2)), mod_deleted_net)"
| "modified_net words1 words2 (Delete, i1, i2, j1, j2) (mod_added_net, mod_deleted_net) =
     (mod_added_net, mod_deleted_net + length (concat (slice words1 i1 i2)))"
| "modified_net words1 words2 (Replace, i1, i2, j1, j2) (mod_added_net, mod_deleted_net) =
     (mod_added_net + length (concat (slice words2 j1 j2)),
      mod_deleted_net + length (concat (slice words1 i1 i2)))"
| "modified_net words1 words2 (Equal, i1, i2, j1, j2) (mod_added_net, mod_deleted_net) =
     (mod_added_net, mod_deleted_net)"

definition summary_step :: "change_block \<Rightarrow> llm_summary \<Rightarrow> llm_summary" where
  "summary_step block s =
     (case status block of
        StAdded \<Rightarrow> s\<lparr>added_chars := added_chars s + length (text2 block)\<rparr>
      | StDeleted \<Rightarrow> s\<lparr>deleted_chars := deleted_chars s + length (text1 block)\<rparr>
      | StModified \<Rightarrow>
          (let words1 = word_tokens (text1 block); words2 = word_tokens (text2 block)
           in case fold (modified_net words1 words2) (get_opcodes words1 words2) (0, 0) of
                (mod_added_net, mod_deleted_net) \<Rightarrow>
                  s\<lparr>modified_blocks := modified_blocks s + 1,
                    modified_chars := modified_chars s + length (text2 block),
                    added_chars := added_chars s + mod_added_net,
                    deleted_chars := deleted_chars s + mod_deleted_net\<rparr>)
      | StEqual \<Rightarrow> s)"

text \<open>\<open>GroqPDFComparator._calculate_summary\<close>\<close>

definition calculate_summary :: "change_block list \<Rightarrow> llm_summary" where
  "calculate_summary all_blocks =
     (if all_blocks = [] then default_summary else fold summary_step all_blocks default_summary)"

subsection \<open>The oracle call\<close>

text \<open>
  The external service is an input: for the \<open>n\<close>-th call and the two chunks it says what
  \<open>chat.completions.create\<close> and \<open>json.loads\<close> produce, either one of the exceptions the
  method handles or the parsed JSON value. A JSON object is the list of its items.
\<close>

datatype json =
    JNull | JBool bool | JNumber int | JString string
  | JArray "json list" | JObject "(string \<times> json) list"

datatype response =
    RateLimitError string
  | BadRequestError string
  | APIError string string
  | OtherError string string
  | InvalidJSON string
  | Parsed json

type_synonym classify = "nat \<Rightarrow> string \<Rightarrow> string \<Rightarrow> response"

text \<open>
  The validation of one returned block. \<open>Inl\<close> carries the message of the \<open>ValueError\<close>
  (without the block's index). A text that is absent or \<open>null\<close> counts as empty; a deleted
  block loses its \<open>text2\<close>, an added block its \<open>text1\<close>.
\<close>

fun parse_status :: "json option \<Rightarrow> status option" where
  "parse_status (Some (JString s)) =
     (if s = ''equal'' then Some StEqual
      else if s = ''added'' then Some StAdded
      else if s = ''deleted'' then Some StDeleted
      else if s = ''modified'' then Some StModified
      else None)"
| "parse_status _ = None"

fun text_ok :: "json option \<Rightarrow> bool" where
  "text_ok None = True"
| "text_ok (Some JNull) = True"
| "text_ok (Some (JString s)) = True"
| "text_ok (Some _) = False"

fun text_or_empty :: "json option \<Rightarrow> string" where
  "text_or_empty (Some (JString s)) = s"
| "text_or_empty _ = []"

definition validate_block :: "json \<Rightarrow> string + change_block" where
  "validate_block item =
     (case item of
        JObject kv \<Rightarrow>
          (case parse_status (map_of kv ''status'') of
             None \<Rightarrow> Inl ''Block has invalid status.''
           | Some st \<Rightarrow>
               if \<not> text_ok (map_of kv ''text1'') then Inl ''Block text1 is not a string.''
               else if \<not> text_ok (map_of kv ''text2'') then Inl ''Block text2 is not a string.''
               else Inr \<lparr>status = st,
                         text1 = (if st = StAdded then [] else text_or_empty (map_of kv ''text1'')),
                         text2 = (if st = StDeleted then [] else text_or_empty (map_of kv ''text2''))\<rparr>)
      | _ \<Rightarrow> Inl ''Block is not a JSON object.'')"

fun validate_blocks :: "json list \<Rightarrow> string + change_block list" where
  "validate_blocks [] = Inr []"
| "validate_blocks (item # items) =
     (case validate_block item of
        Inl msg \<Rightarrow> Inl msg
      | Inr block \<Rightarrow>
          (case validate_blocks items of
             Inl msg \<Rightarrow> Inl msg
           | Inr blocks \<Rightarrow> Inr (block # blocks)))"

definition validate_response :: "json \<Rightarrow> string + change_block list" where
  "validate_response result =
     (case result of
        JObject kv \<Rightarrow>
          (case map_of kv ''change_blocks'' of
             None \<Rightarrow> Inl ''LLM response missing change_blocks key in the root JSON object.''
           | Some (JArray items) \<Rightarrow> validate_blocks items
           | Some _ \<Rightarrow> Inl ''change_blocks value is not a JSON array.'')
      | _ \<Rightarrow> Inl ''LLM response missing change_blocks key in the root JSON object.'')"

record llm_state =
  llm_success :: bool
  llm_error_message :: "string option"
  llm_is_identical_raw :: bool
  llm_text1_raw :: "string option"
  llm_text2_raw :: "string option"
  all_change_blocks :: "change_block list"
  rendered_html :: "string option"
  summary_of :: llm_summary
  api_call_counter :: nat
  oracle_calls :: "(string \<times> string) list"

text \<open>
  \<open>GroqPDFComparator._call_groq_change_blocks\<close>: the counter goes up, the service is called
  (\<open>oracle_calls\<close> records with which chunks), and every failure stores a message and returns
  \<open>None\<close>.
\<close>

definition call_groq_change_blocks ::
  "classify \<Rightarrow> llm_state \<Rightarrow> string \<Rightarrow> string \<Rightarrow> change_block list option \<times> llm_state" where
  "call_groq_change_blocks orc s original_chunk new_chunk =
     (let s1 = s\<lparr>api_call_counter := api_call_counter s + 1,
                 oracle_calls := oracle_calls s @ [(original_chunk, new_chunk)]\<rparr>;
          failed = (\<lambda>msg. (None, s1\<lparr>llm_error_message := Some msg\<rparr>))
      in case orc (api_call_counter s1) original_chunk new_chunk of
           RateLimitError e \<Rightarrow> failed (''API Rate Limit Error: '' @ e @ ''. Please wait and try again.'')
         | BadRequestError e \<Rightarrow>
             failed (''API Bad Request Error: '' @ e @
                     ''. Check input size/content or model compatibility.'')
         | APIError code msg \<Rightarrow> failed (''Groq API Error ('' @ code @ ''): '' @ msg)
         | OtherError tname e \<Rightarrow> failed (''Unexpected Error during API Call: '' @ tname @ '' - '' @ e)
         | InvalidJSON e \<Rightarrow>
             failed (''LLM Response Validation Error: LLM returned invalid JSON: '' @ e)
         | Parsed result \<Rightarrow>
             (case validate_response result of
                Inl msg \<Rightarrow> failed (''LLM Response Validation Error: '' @ msg)
              | Inr validated_blocks \<Rightarrow> (Some validated_blocks, s1)))"

subsection \<open>The reconciliation loop and \<open>GroqPDFComparator.compare\<close>\<close>

text \<open>
  The pairs the loop \<open>for i in range(num_chunks_to_process)\<close> visits: a side that has no
  chunk \<open>i\<close> is the empty string.
\<close>

definition chunk_pairs :: "string list \<Rightarrow> string list \<Rightarrow> (string \<times> string) list" where
  "chunk_pairs chunks1 chunks2 =
     map (\<lambda>i. (if i < length chunks1 then chunks1 ! i else [],
                if i < length chunks2 then chunks2 ! i else []))
         [0..<max (length chunks1) (length chunks2)]"

text \<open>
  The body of the loop for the pairs still to do. \<open>(False, s)\<close> is the early
  \<open>return self.success\<close> after a failed call; \<open>(True, s)\<close> is the loop running to its end.
\<close>

fun process_pairs :: "classify \<Rightarrow> (string \<times> string) list \<Rightarrow> llm_state \<Rightarrow> bool \<times> llm_state" where
  "process_pairs orc [] s = (True, s)"
| "process_pairs orc ((chunk1, chunk2) # rest) s =
     (if strip chunk1 = [] \<and> strip chunk2 = [] then process_pairs orc rest s
      else if strip chunk1 = [] \<and> strip chunk2 \<noteq> []
      then process_pairs orc rest
             (s\<lparr>all_change_blocks := all_change_blocks s @
                   [\<lparr>status = StAdded, text1 = [], text2 = chunk2\<rparr>]\<rparr>)
      else if strip chunk1 \<noteq> [] \<and> strip chunk2 = []
      then process_pairs orc rest
             (s\<lparr>all_change_blocks := all_change_blocks s @
                   [\<lparr>status = StDeleted, text1 = chunk1, text2 = []\<rparr>]\<rparr>)
      else if chunk1 = chunk2
      then process_pairs orc rest
             (s\<lparr>all_change_blocks := all_change_blocks s @
                   [\<lparr>status = StEqual, text1 = chunk1, text2 = chunk2\<rparr>]\<rparr>)
      else (case call_groq_change_blocks orc s chunk1 chunk2 of
              (None, s') \<Rightarrow> (False, s'\<lparr>llm_success := False\<rparr>)
            | (Some change_blocks_result, s') \<Rightarrow>
                process_pairs orc rest
                  (s'\<lparr>all_change_blocks := all_change_blocks s' @ change_blocks_result\<rparr>)))"

text \<open>
  From \<open>num_chunks_to_process\<close> to the end of the \<open>try\<close> block: the loop, then the summary and
  the rendering. The result is the returned boolean and the fields.
\<close>

definition reconcile :: "classify \<Rightarrow> string list \<Rightarrow> string list \<Rightarrow> llm_state \<Rightarrow> bool \<times> llm_state" where
  "reconcile orc chunks1 chunks2 s =
     (case process_pairs orc (chunk_pairs chunks1 chunks2) (s\<lparr>all_change_blocks := []\<rparr>) of
        (False, s') \<Rightarrow> (False, s')
      | (True, s') \<Rightarrow>
          (True, s'\<lparr>summary_of := calculate_summary (all_change_blocks s'),
                    rendered_html := Some (render_change_blocks_html (all_change_blocks s')),
                    llm_success := True\<rparr>))"

definition llm_reset_state :: llm_state where
  "llm_reset_state =
     \<lparr>llm_success = False, llm_error_message = None, llm_is_identical_raw = False,
      llm_text1_raw = None, llm_text2_raw = None, all_change_blocks = [], rendered_html = None,
      summary_of = default_summary, api_call_counter = 0, oracle_calls = []\<rparr>"

text \<open>
  \<open>GroqPDFComparator.compare\<close> for a comparator built with \<open>max_chunk_tokens\<close>: the reset,
  the extraction with its early returns, the two fast paths, the chunking, and the
  reconciliation. An exception of the extraction reaches the outer \<open>except\<close> clause, which
  stores a message (none is set yet), clears \<open>success\<close> and returns it.
\<close>

definition llm_compare ::
  "tokenizer \<Rightarrow> int \<Rightarrow> classify \<Rightarrow> extraction \<Rightarrow> extraction \<Rightarrow> bool \<times> llm_state" where
  "llm_compare tk max_chunk_tokens orc doc1 doc2 =
     (let s0 = llm_reset_state;
          unexpected = (\<lambda>e s. (False, s\<lparr>llm_error_message :=
                                  Some (''Unexpected error during comparison: '' @ e),
                                llm_success := False\<rparr>))
      in case doc1 of
           Raise e \<Rightarrow> unexpected e s0
         | Return (t1, err1) \<Rightarrow>
             (let s1 = s0\<lparr>llm_text1_raw := t1\<rparr>
              in if truthy err1
                 then (False, s1\<lparr>llm_error_message := Some (''Error in Document 1: '' @ str_of err1)\<rparr>)
                 else
                   (case doc2 of
                      Raise e \<Rightarrow> unexpected e s1
                    | Return (t2, err2) \<Rightarrow>
                        (let s2 = s1\<lparr>llm_text2_raw := t2\<rparr>
                         in if truthy err2
                            then (False,
                                  s2\<lparr>llm_error_message := Some (''Error in Document 2: '' @ str_of err2)\<rparr>)
                            else
                              (case (t1, t2) of
                                 (Some raw1, Some raw2) \<Rightarrow>
                                   if raw1 = raw2
                                   then (True, s2\<lparr>llm_is_identical_raw := True, llm_success := True\<rparr>)
                                   else if strip raw1 = [] \<and> strip raw2 = []
                                   then (True, s2\<lparr>llm_success := True\<rparr>)
                                   else
                                     (let m = init_max_chunk_tokens max_chunk_tokens;
                                          chunks1 = chunk_text_by_tokens tk m raw1;
                                          chunks2 = chunk_text_by_tokens tk m raw2
                                      in if chunks1 = [] \<and> chunks2 = []
                                         then (True, s2\<lparr>llm_success := True\<rparr>)
                                         else reconcile orc chunks1 chunks2 s2)
                               | _ \<Rightarrow>
                                   (False,
                                    s2\<lparr>llm_error_message :=
                                         Some ''Text extraction failed unexpectedly after checks.''\<rparr>))))))"

section \<open>The matching blocks advance monotonically through matching stretches\<close>

lemma sep_sym: "sep r1 r2 \<Longrightarrow> sep r2 r1"
  by (auto simp: sep_def)

lemma sep_inside: "sep x r \<Longrightarrow> inside s r \<Longrightarrow> sep x s"
  by (cases x; cases r; cases s) (auto simp: sep_def before_def inside_def)

lemma sorted_wrt_sym_perm:
  assumes sym: "\<And>x y. P x y \<Longrightarrow> P y x"
  shows "mset xs = mset ys \<Longrightarrow> sorted_wrt P xs \<Longrightarrow> sorted_wrt P ys"
proof (induction ys arbitrary: xs)
  case Nil
  then show ?case by simp
next
  case (Cons y ys)
  have "y \<in> set xs" using Cons.prems(1) by (metis list.set_intros(1) mset_eq_setD)
  then obtain xs1 xs2 where xs: "xs = xs1 @ y # xs2" by (meson split_list)
  have m: "mset (xs1 @ xs2) = mset ys" using Cons.prems(1) xs by simp
  have s: "sorted_wrt P (xs1 @ xs2)" using Cons.prems(2) xs by (auto simp: sorted_wrt_append)
  have ys: "sorted_wrt P ys" by (rule Cons.IH [OF m s])
  have "\<forall>z \<in> set (xs1 @ xs2). P y z"
    using Cons.prems(2) xs sym by (auto simp: sorted_wrt_append)
  moreover have "set (xs1 @ xs2) = set ys" using m by (rule mset_eq_setD)
  ultimately show ?case using ys by simp
qed

lemma gmb_loop_inv:
  assumes "blocks_ok a b M" and "queue_ok a b Q" and "sorted_wrt sep (map rect_of M @ Q)"
  shows "blocks_ok a b (gmb_loop a b Q M) \<and> sorted_wrt sep (map rect_of (gmb_loop a b Q M))"
  using assms
proof (induction a b Q M rule: gmb_loop.induct)
  case (1 a b matching_blocks)
  then show ?case by (simp add: gmb_loop.simps)
next
  case (2 a b alo ahi blo bhi queue M)
  obtain i j k where f: "find_longest_match a b alo ahi blo bhi = (i, j, k)"
    by (cases "find_longest_match a b alo ahi blo bhi") auto
  let ?r = "(alo, ahi, blo, bhi)"
  have r: "inside ?r (0, length a, 0, length b)" "alo \<le> ahi" "blo \<le> bhi"
    using "2.prems"(2) by (auto simp: queue_ok_def)
  have q: "queue_ok a b queue" using "2.prems"(2) by (simp add: queue_ok_def)
  show ?case
  proof (cases "k = 0")
    case True
    have "sorted_wrt sep (map rect_of M @ queue)"
      using "2.prems"(3) by (auto simp: sorted_wrt_append)
    from "2.IH"(2) [OF f [symmetric] refl _ "2.prems"(1) q this] True f
    show ?thesis by (simp add: gmb_loop.simps)
  next
    case False
    have bok: "block_ok a b alo ahi blo bhi (i, j, k)"
      using find_longest_match_ok [OF r(2,3), of a b] f by simp
    let ?m = "rect_of (i, j, k)"
    let ?right = "(i + k, ahi, j + k, bhi)"
    let ?left = "(alo, i, blo, j)"
    let ?new = "(if i + k < ahi \<and> j + k < bhi then [?right] else []) @
                (if alo < i \<and> blo < j then [?left] else []) @ queue"
    have ins: "inside ?m ?r" "inside ?right ?r" "inside ?left ?r"
      using bok by (auto simp: inside_def rect_of_def block_ok_def)
    have M': "blocks_ok a b (M @ [(i, j, k)])"
      using "2.prems"(1) bok r(1) False by (auto simp: blocks_ok_def block_ok_def inside_def)
    have Q': "queue_ok a b ?new"
      using q r bok by (auto simp: queue_ok_def inside_def block_ok_def)
    have old: "sorted_wrt sep (map rect_of M)" "sorted_wrt sep queue"
      "\<forall>x\<in>set (map rect_of M). \<forall>y\<in>set queue. sep x y"
      "\<forall>x\<in>set (map rect_of M). sep x ?r" "\<forall>y\<in>set queue. sep ?r y"
      using "2.prems"(3) by (auto simp: sorted_wrt_append)
    have xm: "\<forall>x\<in>set (map rect_of M). sep x ?m \<and> sep x ?right \<and> sep x ?left"
      using old(4) ins by (blast intro: sep_inside)
    have ym: "\<forall>y\<in>set queue. sep ?m y \<and> sep ?right y \<and> sep ?left y"
      using old(5) ins by (blast intro: sep_inside sep_sym)
    have mut: "sep ?m ?right" "sep ?m ?left" "sep ?right ?left"
      by (auto simp: sep_def before_def rect_of_def)
    have "sorted_wrt sep (map rect_of (M @ [(i, j, k)]) @ ?new)"
      using old(1,2,3) xm ym mut by (auto simp: sorted_wrt_append)
    from "2.IH"(1) [OF f [symmetric] refl False M' Q' this] False f
    show ?thesis by (simp add: gmb_loop.simps)
  qed
qed


lemma sorted_blocks_step:
  "sorted S \<Longrightarrow> sorted_wrt sep (map rect_of S) \<Longrightarrow> blocks_ok a b S \<Longrightarrow> sorted_wrt step S"
proof (induction S)
  case Nil
  then show ?case by simp
next
  case (Cons x S)
  have "step x y" if "y \<in> set S" for y
  proof -
    obtain i1 j1 k1 where x: "x = (i1, j1, k1)" by (cases x) auto
    obtain i2 j2 k2 where y: "y = (i2, j2, k2)" by (cases y) auto
    have le: "x \<le> y" using Cons.prems(1) that by simp
    then have i: "i1 \<le> i2" unfolding x y by (auto simp: less_eq_prod_def)
    have "sep (rect_of x) (rect_of y)" using Cons.prems(2) that by simp
    moreover have "0 < k2" using Cons.prems(3) that y by (auto simp: blocks_ok_def list_all_iff)
    ultimately show ?thesis using i unfolding x y
      by (auto simp: sep_def before_def rect_of_def step_def)
  qed
  moreover have "sorted_wrt step S" using Cons by (simp add: blocks_ok_def)
  ultimately show ?case by simp
qed

lemma collapse_adjacent_chain:
  assumes "sorted_wrt step rest"
    and "list_all (\<lambda>m. block_ok a b 0 (length a) 0 (length b) m) rest"
    and "block_ok a b 0 (length a) 0 (length b) (i1, j1, k1)"
    and "list_all (step (i1, j1, k1)) rest"
    and "i0 \<le> i1" and "j0 \<le> j1"
  shows "chain_ok a b i0 j0 (collapse_adjacent (i1, j1, k1) rest @ [(length a, length b, 0)])"
  using assms
proof (induction rest arbitrary: i1 j1 k1 i0 j0)
  case Nil
  then show ?case by (auto simp: block_ok_def)
next
  case (Cons m rest)
  obtain i2 j2 k2 where m: "m = (i2, j2, k2)" by (cases m) auto
  have st: "sorted_wrt step rest" "list_all (step (i2, j2, k2)) rest"
    using Cons.prems(1) m by (auto simp: list_all_iff)
  have oks: "list_all (\<lambda>m. block_ok a b 0 (length a) 0 (length b) m) rest"
    "block_ok a b 0 (length a) 0 (length b) (i2, j2, k2)"
    using Cons.prems(2) m by auto
  have s12: "i1 + k1 \<le> i2" "j1 + k1 \<le> j2" using Cons.prems(4) m by (auto simp: step_def)
  show ?case
  proof (cases "i1 + k1 = i2 \<and> j1 + k1 = j2")
    case True
    have "a ! (i1 + t) = b ! (j1 + t)" if "t < k1 + k2" for t
    proof (cases "t < k1")
      case True
      then show ?thesis using Cons.prems(3) by (auto simp: block_ok_def)
    next
      case False
      then have "t - k1 < k2" using that by simp
      then have "a ! (i2 + (t - k1)) = b ! (j2 + (t - k1))" using oks(2) by (auto simp: block_ok_def)
      moreover have "i2 + (t - k1) = i1 + t" "j2 + (t - k1) = j1 + t" using True False by auto
      ultimately show ?thesis by simp
    qed
    then have ok: "block_ok a b 0 (length a) 0 (length b) (i1, j1, k1 + k2)"
      using oks(2) True by (auto simp: block_ok_def)
    have "list_all (step (i1, j1, k1 + k2)) rest"
      using st(2) True by (auto simp: list_all_iff step_def)
    from Cons.IH [OF st(1) oks(1) ok this Cons.prems(5,6)] True m show ?thesis by simp
  next
    case False
    have rec: "chain_ok a b i j (collapse_adjacent (i2, j2, k2) rest @ [(length a, length b, 0)])"
      if "i \<le> i2" "j \<le> j2" for i j
      by (rule Cons.IH [OF st(1) oks(1) oks(2) st(2) that])
    show ?thesis
    proof (cases "k1 = 0")
      case True
      have "i0 \<le> i2" "j0 \<le> j2" using Cons.prems(5,6) s12 by auto
      from rec [OF this] False True m show ?thesis by auto
    next
      case nz: False
      from rec [OF s12] False nz m Cons.prems(3,5,6) show ?thesis by auto
    qed
  qed
qed

lemma get_matching_blocks_chain: "chain_ok a b 0 0 (get_matching_blocks a b)"
proof -
  let ?M = "gmb_loop a b [(0, length a, 0, length b)] []"
  have inv: "blocks_ok a b ?M \<and> sorted_wrt sep (map rect_of ?M)"
    by (rule gmb_loop_inv) (simp_all add: blocks_ok_def queue_ok_def inside_def)
  have 1: "blocks_ok a b (sort ?M)"
    using inv by (simp add: blocks_ok_def list_all_iff)
  have "mset (map rect_of ?M) = mset (map rect_of (sort ?M))" by simp
  with inv have 2: "sorted_wrt sep (map rect_of (sort ?M))"
    using sorted_wrt_sym_perm [of sep, OF sep_sym] by blast
  have 3: "sorted_wrt step (sort ?M)"
    by (rule sorted_blocks_step [OF _ 2 1]) simp
  have 4: "list_all (\<lambda>m. block_ok a b 0 (length a) 0 (length b) m) (sort ?M)"
    using 1 by (simp add: blocks_ok_def list_all_iff)
  have 5: "block_ok a b 0 (length a) 0 (length b) (0, 0, 0)" by (simp add: block_ok_def)
  have 6: "list_all (step (0, 0, 0)) (sort ?M)" by (auto simp: list_all_iff step_def)
  show ?thesis
    unfolding get_matching_blocks_def Let_def
    by (rule collapse_adjacent_chain [OF 3 4 5 6]) simp_all
qed

lemma get_matching_blocks_last:
  "get_matching_blocks a b \<noteq> [] \<and> last (get_matching_blocks a b) = (length a, length b, 0)"
  by (simp add: get_matching_blocks_def Let_def)


section \<open>What the lexical engine writes\<close>

lemma concat_filter_nonempty: "concat (filter (\<lambda>h. h \<noteq> []) xs) = concat xs"
  by (induction xs) simp_all

lemma generate_word_diff_html_ops:
  "generate_word_diff_html l1 l2 =
     concat (map (\<lambda>(tag, i1, i2, j1, j2).
                concat (map (render_span word_class)
                  (word_diff_op tag (html_escape (concat (slice (word_tokens l1) i1 i2)))
                                    (html_escape (concat (slice (word_tokens l2) j1 j2))))))
             (get_opcodes (word_tokens l1) (word_tokens l2)))"
proof -
  have c: "concat (map f (concat (map g xs))) = concat (map (\<lambda>x. concat (map f (g x))) xs)"
    for f :: "segment \<Rightarrow> string" and g :: "opcode \<Rightarrow> segment list" and xs
    by (induction xs) simp_all
  show ?thesis
    unfolding generate_word_diff_html_def word_diff_segments_def Let_def concat_filter_nonempty c
    by (simp add: split_def)
qed

lemma diff_opcode_rows:
  "diff_opcode a b op (h, s) =
     (h @ fst (diff_opcode a b op ([], z)), snd (diff_opcode a b op (h, s)))"
proof -
  obtain tag i1 i2 j1 j2 where op: "op = (tag, i1, i2, j1, j2)" by (cases op) auto
  show ?thesis unfolding op by (cases tag) (simp_all add: Let_def)
qed

lemma fold_diff_rows:
  "fst (fold (diff_opcode a b) ops (h, s)) =
     h @ concat (map (\<lambda>op. fst (diff_opcode a b op ([], z))) ops)"
proof (induction ops arbitrary: h s)
  case Nil
  then show ?case by simp
next
  case (Cons op ops)
  obtain h' s' where d: "diff_opcode a b op (h, s) = (h', s')" by (cases "diff_opcode a b op (h, s)")
  have h': "h' = h @ fst (diff_opcode a b op ([], z))"
    using diff_opcode_rows [of a b op h s z] d by simp
  show ?case using Cons.IH [of h' s'] by (simp add: d h')
qed

lemma generate_html_rows:
  "fst (generate_diff_html_with_word_level a b) =
     join_with [CHR 0x0A] (concat (map (\<lambda>op. fst (diff_opcode a b op ([], z))) (get_opcodes a b)))"
  using fold_diff_rows [of a b "get_opcodes a b" "[]" "\<lparr>lines_added = 0, lines_deleted = 0, lines_modified = 0\<rparr>" z]
  by (cases "fold (diff_opcode a b) (get_opcodes a b) ([], \<lparr>lines_added = 0, lines_deleted = 0, lines_modified = 0\<rparr>)")
     (simp add: generate_diff_html_with_word_level_def)

lemma sublist_join: "r \<in> set rows \<Longrightarrow> sublist r (join_with delim rows)"
proof (induction delim rows rule: join_with.induct)
  case (1 delim)
  then show ?case by simp
next
  case (2 delim x)
  then show ?case by simp
next
  case (3 delim x y ys)
  show ?case
  proof (cases "r = x")
    case True
    then show ?thesis by (simp add: sublist_append)
  next
    case False
    then have "sublist r (join_with delim (y # ys))" using 3 by simp
    then show ?thesis by (simp add: sublist_append)
  qed
qed

lemma slice_nth_mem: "i1 \<le> k \<Longrightarrow> k < i2 \<Longrightarrow> i2 \<le> length a \<Longrightarrow> a ! k \<in> set (slice a i1 i2)"
proof -
  assume h: "i1 \<le> k" "k < i2" "i2 \<le> length a"
  have "slice a i1 i2 ! (k - i1) = a ! k" using h by (simp add: slice_def)
  moreover have "k - i1 < length (slice a i1 i2)" using h by (simp add: slice_def)
  ultimately show ?thesis by (metis nth_mem)
qed

lemma compare_diff:
  assumes "\<not> truthy err1" "\<not> truthy err2"
    and "fault Preprocess1 = None" "fault Preprocess2 = None" "fault GenerateDiff = None"
    and "preprocess_text opts (Some r1) = Some a" "preprocess_text opts (Some r2) = Some b"
    and "a \<noteq> b"
  shows "fst (compare opts (Return (Some r1, err1)) (Return (Some r2, err2)) fault) = True \<and>
         success (snd (compare opts (Return (Some r1, err1)) (Return (Some r2, err2)) fault)) = True \<and>
         diff_html (snd (compare opts (Return (Some r1, err1)) (Return (Some r2, err2)) fault)) =
           Some (fst (generate_diff_html_with_word_level a b)) \<and>
         summary (snd (compare opts (Return (Some r1, err1)) (Return (Some r2, err2)) fault)) =
           snd (generate_diff_html_with_word_level a b)"
proof -
  have ne: "r1 \<noteq> r2" using assms(6,7,8) by auto
  show ?thesis
    using assms ne
    by (simp add: compare_def compare_try_def compare_extracted_def compare_lines_def Let_def
          reset_state_def split: prod.splits)
qed


section \<open>The lexical summary\<close>

lemma diff_opcode_total:
  "total_changes (snd (diff_opcode a b (tag, i1, i2, j1, j2) (h, s))) =
   total_changes s +
     (case tag of Equal \<Rightarrow> 0 | Insert \<Rightarrow> length (slice b j1 j2)
      | Delete \<Rightarrow> length (slice a i1 i2) | Replace \<Rightarrow> max (i2 - i1) (j2 - j1))"
  by (cases tag) (simp_all add: total_changes_def Let_def)

lemma fold_diff_mono:
  "total_changes s \<le> total_changes (snd (fold (diff_opcode a b) ops (h, s)))"
proof (induction ops arbitrary: h s)
  case Nil
  then show ?case by simp
next
  case (Cons op ops)
  obtain tag i1 i2 j1 j2 where op: "op = (tag, i1, i2, j1, j2)" by (cases op) auto
  obtain h' s' where st: "diff_opcode a b op (h, s) = (h', s')" by (cases "diff_opcode a b op (h, s)") auto
  have "total_changes s \<le> total_changes s'"
    using diff_opcode_total [of a b tag i1 i2 j1 j2 h s] st op by simp
  also have "\<dots> \<le> total_changes (snd (fold (diff_opcode a b) ops (h', s')))" by (rule Cons.IH)
  finally show ?case using st by simp
qed

lemma no_change_equal:
  assumes "chain_ok a b i j bs" and "bs \<noteq> []" and "last bs = (length a, length b, 0)"
    and "take i a = take j b" and "i \<le> length a" and "j \<le> length b"
    and "total_changes (snd (fold (diff_opcode a b) (opcodes_from i j bs) (h, s))) = total_changes s"
  shows "a = b"
  using assms
proof (induction bs arbitrary: i j h s)
  case Nil
  then show ?case by simp
next
  case (Cons m rest)
  obtain ai bj sz where m: "m = (ai, bj, sz)" by (cases m) auto
  have ch: "i \<le> ai" "j \<le> bj" "ai + sz \<le> length a" "bj + sz \<le> length b"
    "\<forall>t<sz. a ! (ai + t) = b ! (bj + t)" "chain_ok a b (ai + sz) (bj + sz) rest"
    using Cons.prems(1) m by (auto simp: block_ok_def)
  let ?T = "(if i < ai \<and> j < bj then [(Replace, i, ai, j, bj)]
      else if i < ai then [(Delete, i, ai, j, bj)]
      else if j < bj then [(Insert, i, ai, j, bj)]
      else [])"
  let ?E = "(if sz \<noteq> 0 then [(Equal, ai, ai + sz, bj, bj + sz)] else [])"
  let ?R = "opcodes_from (ai + sz) (bj + sz) rest"
  have ops: "opcodes_from i j (m # rest) = ?T @ ?E @ ?R" by (simp add: m)
  obtain h1 s1 where T: "fold (diff_opcode a b) ?T (h, s) = (h1, s1)"
    by (cases "fold (diff_opcode a b) ?T (h, s)") auto
  obtain h2 s2 where E: "fold (diff_opcode a b) ?E (h1, s1) = (h2, s2)"
    by (cases "fold (diff_opcode a b) ?E (h1, s1)") auto
  have fin: "fold (diff_opcode a b) (opcodes_from i j (m # rest)) (h, s)
             = fold (diff_opcode a b) ?R (h2, s2)"
    by (simp only: ops fold_append comp_def T E)
  have s2: "total_changes s2 = total_changes s1"
    using E diff_opcode_total [of a b Equal ai "ai + sz" bj "bj + sz" h1 s1]
    by (auto split: if_splits)
  have mono: "total_changes s2 \<le> total_changes (snd (fold (diff_opcode a b) ?R (h2, s2)))"
    by (rule fold_diff_mono)
  have eq: "i = ai \<and> j = bj"
  proof (rule ccontr)
    assume "\<not> (i = ai \<and> j = bj)"
    then have lt: "i < ai \<or> j < bj" using ch(1,2) by auto
    have "total_changes s < total_changes s1"
    proof (cases "i < ai \<and> j < bj")
      case True
      then show ?thesis
        using T diff_opcode_total [of a b Replace i ai j bj h s] by auto
    next
      case nb: False
      show ?thesis
      proof (cases "i < ai")
        case True
        then have "length (slice a i ai) = ai - i" using ch(3) by (simp add: slice_def)
        then show ?thesis
          using T nb True diff_opcode_total [of a b Delete i ai j bj h s] by auto
      next
        case False
        then have j: "j < bj" using lt by simp
        then have "length (slice b j bj) = bj - j" using ch(4) by (simp add: slice_def)
        then show ?thesis
          using T nb False j diff_opcode_total [of a b Insert i ai j bj h s] by auto
      qed
    qed
    with s2 mono fin Cons.prems(7) show False by simp
  qed
  then have s1: "s1 = s" using T by simp
  have ij: "i = j"
  proof -
    have "length (take i a) = length (take j b)" using Cons.prems(4) by simp
    then show ?thesis using Cons.prems(5,6) by simp
  qed
  have tk: "take (ai + sz) a = take (bj + sz) b"
  proof (rule nth_equalityI)
    show "length (take (ai + sz) a) = length (take (bj + sz) b)" using ch(3,4) eq ij by simp
  next
    fix t assume "t < length (take (ai + sz) a)"
    then have t: "t < ai + sz" by simp
    show "take (ai + sz) a ! t = take (bj + sz) b ! t"
    proof (cases "t < i")
      case True
      have "take i a ! t = take j b ! t" using Cons.prems(4) by simp
      then show ?thesis using True t eq ij by simp
    next
      case False
      then have "t - ai < sz" using t eq by auto
      with ch(5) have "a ! (ai + (t - ai)) = b ! (bj + (t - ai))" by blast
      moreover have "ai + (t - ai) = t" "bj + (t - ai) = t" using False eq ij by auto
      ultimately show ?thesis using t eq ij by simp
    qed
  qed
  show ?case
  proof (cases "rest = []")
    case True
    then have "ai = length a" "bj = length b" "sz = 0" using Cons.prems(3) m by auto
    with tk show ?thesis by simp
  next
    case False
    have l: "last rest = (length a, length b, 0)" using Cons.prems(3) False by simp
    have t: "total_changes (snd (fold (diff_opcode a b) ?R (h2, s2))) = total_changes s2"
      using fin Cons.prems(7) s2 s1 by simp
    show ?thesis by (rule Cons.IH [OF ch(6) False l tk ch(3,4) t])
  qed
qed

lemma unequal_counts:
  assumes "lines1 \<noteq> lines2"
  shows "0 < total_changes (snd (generate_diff_html_with_word_level lines1 lines2))"
proof (rule ccontr)
  let ?z = "\<lparr>lines_added = 0, lines_deleted = 0, lines_modified = 0\<rparr>"
  let ?f = "fold (diff_opcode lines1 lines2) (get_opcodes lines1 lines2) ([], ?z)"
  assume "\<not> 0 < total_changes (snd (generate_diff_html_with_word_level lines1 lines2))"
  then have "total_changes (snd ?f) = total_changes ?z"
    by (simp add: generate_diff_html_with_word_level_def total_changes_def split: prod.splits)
  then have "lines1 = lines2"
    unfolding get_opcodes_def
    using no_change_equal [OF get_matching_blocks_chain, of lines1 lines2 "[]" ?z]
      get_matching_blocks_last [of lines1 lines2] by simp
  with assms show False by simp
qed

text \<open>
  C4. Unequal line sequences always make the diff count at least one added, deleted or
  modified line; and in \<open>compare\<close>, once both texts are extracted and nothing raises, the three
  counters of the summary add up to zero exactly when the two normalized line sequences are
  equal (equal sequences take an identical fast path, which leaves the reset summary).
\<close>

theorem summary_zero_iff_equal:
  "(lines1 \<noteq> lines2 \<longrightarrow>
      0 < total_changes (snd (generate_diff_html_with_word_level lines1 lines2))) \<and>
   (\<not> truthy err1 \<and> \<not> truthy err2 \<and> fault = (\<lambda>_. None) \<longrightarrow>
      (total_changes (summary (snd (compare opts (Return (Some r1, err1)) (Return (Some r2, err2)) fault))) = 0
       \<longleftrightarrow> preprocess_text opts (Some r1) = preprocess_text opts (Some r2)))"
proof (intro conjI impI)
  show "0 < total_changes (snd (generate_diff_html_with_word_level lines1 lines2))"
    if "lines1 \<noteq> lines2" using that by (rule unequal_counts)
next
  assume h: "\<not> truthy err1 \<and> \<not> truthy err2 \<and> fault = (\<lambda>_. None)"
  obtain l1 where l1: "preprocess_text opts (Some r1) = Some l1" by (simp add: preprocess_text_def)
  obtain l2 where l2: "preprocess_text opts (Some r2) = Some l2" by (simp add: preprocess_text_def)
  show "total_changes (summary (snd (compare opts (Return (Some r1, err1)) (Return (Some r2, err2)) fault))) = 0
       \<longleftrightarrow> preprocess_text opts (Some r1) = preprocess_text opts (Some r2)"
  proof (cases "l1 = l2")
    case True
    then show ?thesis using h l1 l2
      by (simp add: compare_def compare_try_def compare_extracted_def compare_lines_def
            reset_state_def total_changes_def Let_def)
  next
    case False
    have ne: "r1 \<noteq> r2" using False l1 l2 by auto
    obtain html sm where g: "generate_diff_html_with_word_level l1 l2 = (html, sm)"
      by (cases "generate_diff_html_with_word_level l1 l2") auto
    have "0 < total_changes (snd (generate_diff_html_with_word_level l1 l2))"
      using False by (rule unequal_counts)
    then have "0 < total_changes sm" using g by simp
    then show ?thesis using h l1 l2 False ne g
      by (simp add: compare_def compare_try_def compare_extracted_def compare_lines_def
            reset_state_def Let_def)
  qed
qed


theorem summary_zero_iff_equal_witness:
  "[''a''] \<noteq> [''b''] \<and>
   0 < total_changes (snd (generate_diff_html_with_word_level [''a''] [''b''])) \<and>
   \<not> truthy None \<and>
   total_changes (summary (snd (compare \<lparr>ignore_case = True, ignore_punctuation = False, de_hyphenate = False\<rparr>
      (Return (Some ''Line'', None)) (Return (Some '' line '', None)) (\<lambda>_. None)))) = 0 \<and>
   total_changes (summary (snd (compare \<lparr>ignore_case = False, ignore_punctuation = False, de_hyphenate = False\<rparr>
      (Return (Some ''Line'', None)) (Return (Some '' line '', None)) (\<lambda>_. None)))) \<noteq> 0"
proof -
  let ?o1 = "\<lparr>ignore_case = True, ignore_punctuation = False, de_hyphenate = False\<rparr>"
  let ?o2 = "\<lparr>ignore_case = False, ignore_punctuation = False, de_hyphenate = False\<rparr>"
  have p1: "preprocess_text ?o1 (Some ''Line'') = preprocess_text ?o1 (Some '' line '')"
    by code_simp
  have p2: "preprocess_text ?o2 (Some ''Line'') \<noteq> preprocess_text ?o2 (Some '' line '')"
    by code_simp
  have ne: "[''a''] \<noteq> [''b'']" by simp
  show ?thesis
    using summary_zero_iff_equal [of "[''a'']" "[''b'']" None None "\<lambda>_. None" ?o1 "''Line''" "'' line ''"]
      summary_zero_iff_equal [of "[''a'']" "[''b'']" None None "\<lambda>_. None" ?o2 "''Line''" "'' line ''"]
      p1 p2 ne
    by simp
qed

section \<open>The return value of the lexical comparison\<close>

text \<open>
  C10. The boolean that \<open>PDFComparator.compare\<close> returns does not say whether it succeeded.
  An extraction error (either document) and a missing text return \<open>False\<close>, and so does a
  preprocessing step that yields \<open>None\<close>; but an exception raised after extraction, in either
  preprocessing call or in the diff generation, is caught: \<open>success\<close> is \<open>False\<close>, the
  error message is set, and the method returns \<open>True\<close>. The same holds for any exception
  that leaves the \<open>try\<close> block.
\<close>

theorem compare_return_value:
  "(truthy err1 \<longrightarrow>
      fst (compare opts (Return (t1, err1)) doc2 fault) = False \<and>
      success (snd (compare opts (Return (t1, err1)) doc2 fault)) = False) \<and>
   (\<not> truthy err1 \<and> truthy err2 \<longrightarrow>
      fst (compare opts (Return (t1, err1)) (Return (t2, err2)) fault) = False \<and>
      success (snd (compare opts (Return (t1, err1)) (Return (t2, err2)) fault)) = False) \<and>
   (\<not> truthy err1 \<and> \<not> truthy err2 \<and> (t1 = None \<or> t2 = None) \<longrightarrow>
      fst (compare opts (Return (t1, err1)) (Return (t2, err2)) fault) = False \<and>
      success (snd (compare opts (Return (t1, err1)) (Return (t2, err2)) fault)) = False) \<and>
   (\<not> truthy err1 \<and> \<not> truthy err2 \<and>
    (ignore_case opts \<or> ignore_punctuation opts \<or> de_hyphenate opts \<or> r1 \<noteq> r2) \<longrightarrow>
      (fault Preprocess1 = Some e \<longrightarrow>
         caught e (compare opts (Return (Some r1, err1)) (Return (Some r2, err2)) fault)) \<and>
      (fault Preprocess1 = None \<and> fault Preprocess2 = Some e \<longrightarrow>
         caught e (compare opts (Return (Some r1, err1)) (Return (Some r2, err2)) fault)) \<and>
      (fault Preprocess1 = None \<and> fault Preprocess2 = None \<and> fault GenerateDiff = Some e \<and>
       preprocess_text opts (Some r1) \<noteq> preprocess_text opts (Some r2) \<longrightarrow>
         caught e (compare opts (Return (Some r1, err1)) (Return (Some r2, err2)) fault))) \<and>
   (fault Preprocess1 = None \<and> fault Preprocess2 = None \<and>
    (preprocess_text opts t1 = None \<or> preprocess_text opts t2 = None) \<and>
    (ignore_case opts \<or> ignore_punctuation opts \<or> de_hyphenate opts \<or> t1 \<noteq> t2) \<longrightarrow>
      fst (compare_extracted opts fault t1 t2 s) = Inr False) \<and>
   (compare_try opts doc1 doc2 fault reset_state = (Inl e, s) \<longrightarrow>
      caught e (compare opts doc1 doc2 fault))"
  by (auto simp: compare_def compare_try_def compare_extracted_def compare_lines_def caught_def
        preprocess_text_def Let_def reset_state_def split: option.splits)


theorem compare_return_value_witness:
  "truthy (Some ''Corrupted or invalid PDF.'') \<and>
   fst (compare \<lparr>ignore_case = False, ignore_punctuation = False, de_hyphenate = False\<rparr>
          (Return (None, Some ''Corrupted or invalid PDF.'')) (Return (Some ''b'', None)) (\<lambda>_. None)) = False \<and>
   caught ''boom'' (compare \<lparr>ignore_case = False, ignore_punctuation = False, de_hyphenate = False\<rparr>
          (Return (Some ''a'', None)) (Return (Some ''b'', None))
          (\<lambda>st. if st = GenerateDiff then Some ''boom'' else None)) \<and>
   caught ''boom'' (compare \<lparr>ignore_case = False, ignore_punctuation = False, de_hyphenate = False\<rparr>
          (Return (Some ''a'', None)) (Return (Some ''b'', None))
          (\<lambda>st. if st = Preprocess1 then Some ''boom'' else None)) \<and>
   fst (compare \<lparr>ignore_case = False, ignore_punctuation = False, de_hyphenate = False\<rparr>
          (Return (Some ''a'', None)) (Return (Some ''b'', None))
          (\<lambda>st. if st = GenerateDiff then Some ''boom'' else None)) = True"
proof -
  let ?o = "\<lparr>ignore_case = False, ignore_punctuation = False, de_hyphenate = False\<rparr>"
  let ?g = "\<lambda>st. if st = GenerateDiff then Some ''boom'' else None"
  let ?p = "\<lambda>st. if st = Preprocess1 then Some ''boom'' else None"
  have ne: "preprocess_text ?o (Some ''a'') \<noteq> preprocess_text ?o (Some ''b'')"
    by code_simp
  show ?thesis
    using compare_return_value [of "Some ''Corrupted or invalid PDF.''" ?o None "Return (Some ''b'', None)"
            "\<lambda>_. None" None None "''a''" "''b''" "''boom''"]
          compare_return_value [of None ?o None "Return (Some ''b'', None)" ?g None None "''a''" "''b''" "''boom''"]
          compare_return_value [of None ?o None "Return (Some ''b'', None)" ?p None None "''a''" "''b''" "''boom''"]
          ne
    by (simp add: caught_def)
qed

section \<open>Replace opcodes in the lexical diff\<close>

lemma opcodes_from_in_range:
  "chain_ok a b i j bs \<Longrightarrow> (tag, i1, i2, j1, j2) \<in> set (opcodes_from i j bs) \<Longrightarrow>
   i1 \<le> i2 \<and> i2 \<le> length a \<and> j1 \<le> j2 \<and> j2 \<le> length b"
proof (induction bs arbitrary: i j)
  case Nil
  then show ?case by simp
next
  case (Cons m bs)
  obtain ai bj sz where m: "m = (ai, bj, sz)" by (cases m) auto
  from Cons.prems(1) m have ch: "i \<le> ai" "j \<le> bj" "ai + sz \<le> length a" "bj + sz \<le> length b"
    "chain_ok a b (ai + sz) (bj + sz) bs" by (auto simp: block_ok_def)
  from Cons.prems(2) m consider
      "(tag, i1, i2, j1, j2) = (tag, i, ai, j, bj)"
    | "(tag, i1, i2, j1, j2) = (Equal, ai, ai + sz, bj, bj + sz)"
    | "(tag, i1, i2, j1, j2) \<in> set (opcodes_from (ai + sz) (bj + sz) bs)"
    by (auto split: if_splits)
  then show ?case
  proof cases
    case 1
    then show ?thesis using ch by auto
  next
    case 2
    then show ?thesis using ch by auto
  next
    case 3
    then show ?thesis using Cons.IH [OF ch(5)] by simp
  qed
qed

lemma get_opcodes_in_range:
  "(tag, i1, i2, j1, j2) \<in> set (get_opcodes a b) \<Longrightarrow>
   i1 \<le> i2 \<and> i2 \<le> length a \<and> j1 \<le> j2 \<and> j2 \<le> length b"
  unfolding get_opcodes_def by (rule opcodes_from_in_range [OF get_matching_blocks_chain])

lemma preprocess_nonempty:
  "preprocess_text opts t = Some ls \<Longrightarrow> list_all (\<lambda>l. l \<noteq> []) ls"
  by (auto simp: preprocess_text_def list_all_iff split: option.splits)


lemma fold_lines_modified:
  "lines_modified (snd (fold (diff_opcode a b) ops (h, s))) =
     lines_modified s +
     sum_list (map (\<lambda>(tag, k1, k2, m1, m2). if tag = Replace then max (k2 - k1) (m2 - m1) else 0) ops)"
proof (induction ops arbitrary: h s)
  case Nil
  then show ?case by simp
next
  case (Cons op ops)
  obtain tag i1 i2 j1 j2 where op: "op = (tag, i1, i2, j1, j2)" by (cases op) auto
  obtain h' s' where st: "diff_opcode a b op (h, s) = (h', s')" by (cases "diff_opcode a b op (h, s)") auto
  have "lines_modified s' = lines_modified s + (if tag = Replace then max (i2 - i1) (j2 - j1) else 0)"
    using st unfolding op by (cases tag) (auto simp: Let_def)
  moreover have "fold (diff_opcode a b) (op # ops) (h, s) = fold (diff_opcode a b) ops (h', s')"
    by (simp add: st)
  ultimately show ?case using Cons.IH [of h' s'] by (simp add: op)
qed

lemma generate_lines_modified:
  "lines_modified (snd (generate_diff_html_with_word_level a b)) =
     sum_list (map (\<lambda>(tag, k1, k2, m1, m2). if tag = Replace then max (k2 - k1) (m2 - m1) else 0)
                (get_opcodes a b))"
  using fold_lines_modified [of a b "get_opcodes a b" "[]" "\<lparr>lines_added = 0, lines_deleted = 0, lines_modified = 0\<rparr>"]
  by (cases "fold (diff_opcode a b) (get_opcodes a b) ([], \<lparr>lines_added = 0, lines_deleted = 0, lines_modified = 0\<rparr>)")
     (simp add: generate_diff_html_with_word_level_def)

text \<open>
  C5. For every Replace opcode of the alignment of two normalized line sequences, the
  engine adds \<open>max(len(span_a), len(span_b))\<close> to \<open>lines_modified\<close> and writes one row per index
  below that maximum: where both sides have a line, a \<open>diff-modified\<close> row marked \<open>*\<close> holding the
  word-level diff of the pair; where only the B side has one, a \<open>diff-added\<close> row marked \<open>+\<close>;
  where only the A side has one, a \<open>diff-deleted\<close> row marked \<open>-\<close>. The word-level diff aligns
  the words of the two lines and writes, opcode by opcode, the escaped B words unstyled for
  Equal, a \<open>word-deleted\<close> span for Delete, a \<open>word-added\<close> span for Insert, and for Replace a
  \<open>word-deleted\<close> span then a \<open>word-added\<close> span, each only when its text is not blank. The
  \<open>diff_html\<close> that \<open>compare\<close> stores is the rows of all opcodes joined by newlines, and its
  \<open>lines_modified\<close> is the sum of these maxima over the Replace opcodes.
\<close>

theorem replace_rows:
  assumes "preprocess_text opts (Some r1) = Some a" and "preprocess_text opts (Some r2) = Some b"
    and "(Replace, i1, i2, j1, j2) \<in> set (get_opcodes a b)" and "a \<noteq> b"
    and "\<not> truthy err1" and "\<not> truthy err2"
    and "fault Preprocess1 = None" and "fault Preprocess2 = None" and "fault GenerateDiff = None"
  shows "diff_opcode a b (Replace, i1, i2, j1, j2) (html_out, s) =
           (html_out @
            map (\<lambda>i. if i < i2 - i1 \<and> i < j2 - j1
                      then ''<span class='diff-line diff-modified'><span class='diff-marker'>*</span>'' @
                           generate_word_diff_html (a ! (i1 + i)) (b ! (j1 + i)) @ ''</span>''
                      else if i < j2 - j1
                      then ''<span class='diff-line diff-added'><span class='diff-marker'>+</span>'' @
                           format_links (html_escape (b ! (j1 + i))) @ ''</span>''
                      else ''<span class='diff-line diff-deleted'><span class='diff-marker'>-</span>'' @
                           format_links (html_escape (a ! (i1 + i))) @ ''</span>'')
                [0..<max (i2 - i1) (j2 - j1)],
            s\<lparr>lines_modified := lines_modified s + max (i2 - i1) (j2 - j1)\<rparr>) \<and>
         generate_word_diff_html l1 l2 =
           concat (map (\<lambda>(tag, k1, k2, m1, m2).
               if tag = Equal then html_escape (concat (slice (word_tokens l2) m1 m2))
               else if tag = Delete
               then ''<span class='word-deleted'>'' @ html_escape (concat (slice (word_tokens l1) k1 k2)) @ ''</span>''
               else if tag = Insert
               then ''<span class='word-added'>'' @ html_escape (concat (slice (word_tokens l2) m1 m2)) @ ''</span>''
               else (if strip (html_escape (concat (slice (word_tokens l1) k1 k2))) \<noteq> []
                     then ''<span class='word-deleted'>'' @ html_escape (concat (slice (word_tokens l1) k1 k2)) @ ''</span>''
                     else []) @
                    (if strip (html_escape (concat (slice (word_tokens l2) m1 m2))) \<noteq> []
                     then ''<span class='word-added'>'' @ html_escape (concat (slice (word_tokens l2) m1 m2)) @ ''</span>''
                     else []))
             (get_opcodes (word_tokens l1) (word_tokens l2))) \<and>
         diff_html (snd (compare opts (Return (Some r1, err1)) (Return (Some r2, err2)) fault)) =
           Some (join_with [CHR 0x0A]
                  (concat (map (\<lambda>op. fst (diff_opcode a b op ([], z))) (get_opcodes a b)))) \<and>
         lines_modified (summary (snd (compare opts (Return (Some r1, err1)) (Return (Some r2, err2)) fault))) =
           sum_list (map (\<lambda>(tag, k1, k2, m1, m2). if tag = Replace then max (k2 - k1) (m2 - m1) else 0)
                      (get_opcodes a b))"
proof (intro conjI)
  have r: "i1 \<le> i2" "i2 \<le> length a" "j1 \<le> j2" "j2 \<le> length b"
    using get_opcodes_in_range [OF assms(3)] by auto
  have na: "\<And>k. k < length a \<Longrightarrow> a ! k \<noteq> []"
    using preprocess_nonempty [OF assms(1)] by (simp add: list_all_length)
  have nb: "\<And>k. k < length b \<Longrightarrow> b ! k \<noteq> []"
    using preprocess_nonempty [OF assms(2)] by (simp add: list_all_length)
  let ?g = "\<lambda>i. if i < i2 - i1 \<and> i < j2 - j1
                      then ''<span class='diff-line diff-modified'><span class='diff-marker'>*</span>'' @
                           generate_word_diff_html (a ! (i1 + i)) (b ! (j1 + i)) @ ''</span>''
                      else if i < j2 - j1
                      then ''<span class='diff-line diff-added'><span class='diff-marker'>+</span>'' @
                           format_links (html_escape (b ! (j1 + i))) @ ''</span>''
                      else ''<span class='diff-line diff-deleted'><span class='diff-marker'>-</span>'' @
                           format_links (html_escape (a ! (i1 + i))) @ ''</span>''"
  let ?f = "replace_row a b i1 (i2 - i1) j1 (j2 - j1)"
  let ?xs = "[0..<max (i2 - i1) (j2 - j1)]"
  have row: "?f i = [?g i]" if "i < max (i2 - i1) (j2 - j1)" for i
  proof -
    have "i < i2 - i1 \<Longrightarrow> a ! (i1 + i) \<noteq> []" using na r by simp
    moreover have "i < j2 - j1 \<Longrightarrow> b ! (j1 + i) \<noteq> []" using nb r by simp
    ultimately show ?thesis using that
      by (auto simp: replace_row_def Let_def modified_line_def added_line_def deleted_line_def
            diff_line_def)
  qed
  have e: "map ?f ?xs = map (\<lambda>i. [?g i]) ?xs" using row by (intro map_cong) auto
  have "concat (map ?f ?xs) = map ?g ?xs" unfolding e by (rule concat_map_singleton)
  then show "diff_opcode a b (Replace, i1, i2, j1, j2) (html_out, s) =
           (html_out @ map ?g ?xs, s\<lparr>lines_modified := lines_modified s + max (i2 - i1) (j2 - j1)\<rparr>)"
    by (simp add: Let_def)
next
  have w: "concat (map (render_span word_class) (word_diff_op tag e1 e2)) =
        (if tag = Equal then e2
         else if tag = Delete then ''<span class='word-deleted'>'' @ e1 @ ''</span>''
         else if tag = Insert then ''<span class='word-added'>'' @ e2 @ ''</span>''
         else (if strip e1 \<noteq> [] then ''<span class='word-deleted'>'' @ e1 @ ''</span>'' else []) @
              (if strip e2 \<noteq> [] then ''<span class='word-added'>'' @ e2 @ ''</span>'' else []))"
    for tag e1 e2
    by (cases tag) (simp_all add: render_span_def)
  show "generate_word_diff_html l1 l2 =
           concat (map (\<lambda>(tag, k1, k2, m1, m2).
               if tag = Equal then html_escape (concat (slice (word_tokens l2) m1 m2))
               else if tag = Delete
               then ''<span class='word-deleted'>'' @ html_escape (concat (slice (word_tokens l1) k1 k2)) @ ''</span>''
               else if tag = Insert
               then ''<span class='word-added'>'' @ html_escape (concat (slice (word_tokens l2) m1 m2)) @ ''</span>''
               else (if strip (html_escape (concat (slice (word_tokens l1) k1 k2))) \<noteq> []
                     then ''<span class='word-deleted'>'' @ html_escape (concat (slice (word_tokens l1) k1 k2)) @ ''</span>''
                     else []) @
                    (if strip (html_escape (concat (slice (word_tokens l2) m1 m2))) \<noteq> []
                     then ''<span class='word-added'>'' @ html_escape (concat (slice (word_tokens l2) m1 m2)) @ ''</span>''
                     else []))
             (get_opcodes (word_tokens l1) (word_tokens l2)))"
    unfolding generate_word_diff_html_ops w ..
next
  note cd = compare_diff [OF assms(5,6,7,8,9) assms(1,2,4)]
  show "diff_html (snd (compare opts (Return (Some r1, err1)) (Return (Some r2, err2)) fault)) =
           Some (join_with [CHR 0x0A]
                  (concat (map (\<lambda>op. fst (diff_opcode a b op ([], z))) (get_opcodes a b))))"
    using cd generate_html_rows [of a b z] by simp
  show "lines_modified (summary (snd (compare opts (Return (Some r1, err1)) (Return (Some r2, err2)) fault))) =
           sum_list (map (\<lambda>(tag, k1, k2, m1, m2). if tag = Replace then max (k2 - k1) (m2 - m1) else 0)
                      (get_opcodes a b))"
    using cd generate_lines_modified [of a b] by simp
qed

theorem replace_rows_witness:
  "preprocess_text \<lparr>ignore_case = False, ignore_punctuation = False, de_hyphenate = False\<rparr>
     (Some (''x'' @ [CHR 0x0A] @ ''p <q>'')) = Some [''x'', ''p <q>''] \<and>
   preprocess_text \<lparr>ignore_case = False, ignore_punctuation = False, de_hyphenate = False\<rparr>
     (Some (''x'' @ [CHR 0x0A] @ ''p r'' @ [CHR 0x0A] @ ''s'')) = Some [''x'', ''p r'', ''s''] \<and>
   (Replace, 1, 2, 1, 3) \<in> set (get_opcodes [''x'', ''p <q>''] [''x'', ''p r'', ''s'']) \<and>
   diff_opcode [''x'', ''p <q>''] [''x'', ''p r'', ''s''] (Replace, 1, 2, 1, 3)
       ([], \<lparr>lines_added = 0, lines_deleted = 0, lines_modified = 0\<rparr>) =
     ([''<span class='diff-line diff-modified'><span class='diff-marker'>*</span>p <span class='word-deleted'>&lt;q&gt;</span><span class='word-added'>r</span></span>'',
       ''<span class='diff-line diff-added'><span class='diff-marker'>+</span>s</span>''],
      \<lparr>lines_added = 0, lines_deleted = 0, lines_modified = 2\<rparr>) \<and>
   diff_html (snd (compare \<lparr>ignore_case = False, ignore_punctuation = False, de_hyphenate = False\<rparr>
       (Return (Some (''x'' @ [CHR 0x0A] @ ''p <q>''), None))
       (Return (Some (''x'' @ [CHR 0x0A] @ ''p r'' @ [CHR 0x0A] @ ''s''), None)) (\<lambda>_. None))) =
     Some (''<span class='diff-line diff-equal'><span class='diff-marker'> </span>x</span>'' @ [CHR 0x0A] @
           ''<span class='diff-line diff-modified'><span class='diff-marker'>*</span>p <span class='word-deleted'>&lt;q&gt;</span><span class='word-added'>r</span></span>'' @ [CHR 0x0A] @
           ''<span class='diff-line diff-added'><span class='diff-marker'>+</span>s</span>'') \<and>
   lines_modified (summary (snd (compare \<lparr>ignore_case = False, ignore_punctuation = False, de_hyphenate = False\<rparr>
       (Return (Some (''x'' @ [CHR 0x0A] @ ''p <q>''), None))
       (Return (Some (''x'' @ [CHR 0x0A] @ ''p r'' @ [CHR 0x0A] @ ''s''), None)) (\<lambda>_. None)))) = 2"
proof -
  let ?o = "\<lparr>ignore_case = False, ignore_punctuation = False, de_hyphenate = False\<rparr>"
  let ?a = "[''x'', ''p <q>'']"
  let ?b = "[''x'', ''p r'', ''s'']"
  let ?z = "\<lparr>lines_added = 0, lines_deleted = 0, lines_modified = 0\<rparr>"
  have a: "preprocess_text ?o (Some (''x'' @ [CHR 0x0A] @ ''p <q>'')) = Some ?a"
    by code_simp
  have b: "preprocess_text ?o (Some (''x'' @ [CHR 0x0A] @ ''p r'' @ [CHR 0x0A] @ ''s'')) = Some ?b"
    by code_simp
  have ops: "get_opcodes ?a ?b = [(Equal, 0, 1, 0, 1), (Replace, 1, 2, 1, 3)]"
    by code_simp
  have c: "(Replace, 1, 2, 1, 3) \<in> set (get_opcodes ?a ?b)" by (simp add: ops)
  have ne: "?a \<noteq> ?b" by simp
  have t: "\<not> truthy None" by simp
  have w: "generate_word_diff_html ''p <q>'' ''p r'' =
             ''p <span class='word-deleted'>&lt;q&gt;</span><span class='word-added'>r</span>''"
    by code_simp
  have fs: "format_links (html_escape ''s'') = ''s''" by code_simp
  have fx: "format_links (html_escape ''x'') = ''x''" by code_simp
  have u: "[0..<2] = [0, Suc 0]" by (simp add: upt_conv_Cons)
  have sl: "slice ?a 0 (Suc 0) = [''x'']" by (simp add: slice_def)
  have eq: "equal_line ''x'' = ''<span class='diff-line diff-equal'><span class='diff-marker'> </span>x</span>''"
    by (simp add: equal_line_def diff_line_def fx)
  note th = replace_rows [OF a b c ne t t, of "\<lambda>_. None" "[]" ?z "''p <q>''" "''p r''" ?z]
  from th have 1: "diff_opcode ?a ?b (Replace, 1, 2, 1, 3) ([], ?z) =
     ([''<span class='diff-line diff-modified'><span class='diff-marker'>*</span>p <span class='word-deleted'>&lt;q&gt;</span><span class='word-added'>r</span></span>'',
       ''<span class='diff-line diff-added'><span class='diff-marker'>+</span>s</span>''],
      \<lparr>lines_added = 0, lines_deleted = 0, lines_modified = 2\<rparr>)"
    by (simp add: u w fs)
  from th have 2: "diff_html (snd (compare ?o
       (Return (Some (''x'' @ [CHR 0x0A] @ ''p <q>''), None))
       (Return (Some (''x'' @ [CHR 0x0A] @ ''p r'' @ [CHR 0x0A] @ ''s''), None)) (\<lambda>_. None))) =
     Some (join_with [CHR 0x0A] (concat (map (\<lambda>op. fst (diff_opcode ?a ?b op ([], ?z))) (get_opcodes ?a ?b))))"
    by blast
  have 3: "join_with [CHR 0x0A] (concat (map (\<lambda>op. fst (diff_opcode ?a ?b op ([], ?z))) (get_opcodes ?a ?b))) =
      ''<span class='diff-line diff-equal'><span class='diff-marker'> </span>x</span>'' @ [CHR 0x0A] @
           ''<span class='diff-line diff-modified'><span class='diff-marker'>*</span>p <span class='word-deleted'>&lt;q&gt;</span><span class='word-added'>r</span></span>'' @ [CHR 0x0A] @
           ''<span class='diff-line diff-added'><span class='diff-marker'>+</span>s</span>''"
    unfolding ops list.map concat.simps 1 by (simp add: sl eq del: diff_opcode.simps(4))
  from th have 4: "lines_modified (summary (snd (compare ?o
       (Return (Some (''x'' @ [CHR 0x0A] @ ''p <q>''), None))
       (Return (Some (''x'' @ [CHR 0x0A] @ ''p r'' @ [CHR 0x0A] @ ''s''), None)) (\<lambda>_. None)))) =
       sum_list (map (\<lambda>(tag, k1, k2, m1, m2). if tag = Replace then max (k2 - k1) (m2 - m1) else 0)
                      (get_opcodes ?a ?b))"
    by blast
  have 5: "sum_list (map (\<lambda>(tag, k1, k2, m1, m2). if tag = Replace then max (k2 - k1) (m2 - m1) else 0)
                      (get_opcodes ?a ?b)) = (2::nat)"
    unfolding ops by simp
  show ?thesis
    unfolding 1 using a b c 2 [unfolded 3] 4 [unfolded 5] by blast
qed


section \<open>Escaping and links in the lexical rendering\<close>

lemma html_escape_append: "html_escape (x @ y) = html_escape x @ html_escape y"
  by (simp add: html_escape_def)















lemma sublist_escape: "sublist x t \<Longrightarrow> sublist (html_escape x) (html_escape t)"
proof -
  assume "sublist x t"
  then obtain ps ss where "t = ps @ x @ ss" by (auto simp: sublist_def)
  then have "html_escape t = html_escape ps @ html_escape x @ html_escape ss"
    by (simp add: html_escape_append)
  then show ?thesis by (metis sublist_appendI)
qed







lemma sublist_render_text: "sublist x t \<Longrightarrow> sublist (html_escape x) (render_piece (Text t))"
  by (simp add: sublist_escape)








section \<open>The normalizer: idempotence\<close>

lemma is_space_lower [simp]: "is_space (lower_char c) = is_space c"
  unfolding is_space_def lower_char_def Let_def by auto

lemma is_punct_lower [simp]: "is_punct (lower_char c) = is_punct c"
  unfolding is_punct_def lower_char_def Let_def by auto

lemma lower_char_idem [simp]: "lower_char (lower_char c) = lower_char c"
  unfolding lower_char_def Let_def by auto

lemma lower_char_space [simp]: "lower_char (CHR 0x20) = CHR 0x20"
  by (simp add: lower_char_def)

lemma is_space_space [simp]: "is_space (CHR 0x20)"
  by (simp add: is_space_def)

lemma not_punct_space [simp]: "\<not> is_punct (CHR 0x20)"
  by (simp add: is_punct_def)

lemma not_linebreak_space [simp]: "\<not> is_linebreak (CHR 0x20)"
  by (simp add: is_linebreak_def)

lemma linebreak_is_space: "is_linebreak c \<Longrightarrow> is_space c"
  unfolding is_linebreak_def is_space_def Let_def by auto

lemma lower_idem: "lower (lower s) = lower s"
  by (simp add: lower_def)

lemma lower_remove_punct: "lower (remove_punct s) = remove_punct (lower s)"
  by (simp add: lower_def remove_punct_def filter_map comp_def)

lemma lower_collapse: "lower (collapse_ws s) = collapse_ws (lower s)"
  by (induction s rule: collapse_ws.induct) (simp_all add: lower_def dropWhile_map comp_def)

lemma lower_strip: "lower (strip s) = strip (lower s)"
  by (simp add: lower_def strip_def rstrip_def rev_map dropWhile_map comp_def)

lemma rstrip_Cons:
  "rstrip (c # cs) = (if list_all is_space (c # cs) then [] else c # rstrip cs)"
  by (auto simp: rstrip_def dropWhile_append list_all_iff)

lemma rstrip_Nil [simp]: "rstrip [] = []"
  by (simp add: rstrip_def)

lemma dropWhile_collapse:
  "dropWhile is_space (collapse_ws s) = collapse_ws (dropWhile is_space s)"
proof (cases s)
  case Nil
  then show ?thesis by simp
next
  case (Cons c cs)
  have nolead: "dropWhile is_space (collapse_ws d) = collapse_ws d"
    if "d = dropWhile is_space cs" for d
  proof (cases d)
    case Nil
    then show ?thesis by simp
  next
    case (Cons e es)
    with that have "\<not> is_space e"
      by (metis hd_dropWhile list.sel(1) list.distinct(1))
    with Cons show ?thesis by simp
  qed
  show ?thesis using Cons nolead by simp
qed

lemma collapse_idem: "collapse_ws (collapse_ws s) = collapse_ws s"
proof (induction s rule: collapse_ws.induct)
  case 1
  show ?case by simp
next
  case (2 c cs)
  show ?case
  proof (cases "is_space c")
    case True
    with 2 show ?thesis by (simp add: dropWhile_collapse)
  next
    case False
    with 2 show ?thesis by simp
  qed
qed

lemma collapse_rstrip: "collapse_ws s = s \<Longrightarrow> collapse_ws (rstrip s) = rstrip s"
proof (induction s)
  case Nil
  show ?case by simp
next
  case (Cons c cs)
  show ?case
  proof (cases "list_all is_space (c # cs)")
    case True
    then show ?thesis by (simp add: rstrip_Cons)
  next
    case allsp: False
    show ?thesis
    proof (cases "is_space c")
      case True
      with Cons.prems have c: "c = CHR 0x20" and cs: "collapse_ws (dropWhile is_space cs) = cs"
        by simp_all
      have nl: "dropWhile is_space cs = cs"
        by (metis cs dropWhile_collapse dropWhile_idem)
      with cs have fx: "collapse_ws cs = cs" by simp
      from allsp True have ne: "cs \<noteq> []" by auto
      have "dropWhile is_space (rstrip cs) = rstrip cs"
      proof (cases cs)
        case Nil
        with ne show ?thesis by simp
      next
        case (Cons d ds)
        with nl have "\<not> is_space d" by (metis dropWhile_eq_Cons_conv)
        then show ?thesis using Cons by (simp add: rstrip_Cons)
      qed
      with Cons.IH [OF fx] allsp True show ?thesis
        by (simp add: rstrip_Cons c)
    next
      case False
      with Cons.prems have "collapse_ws cs = cs" by simp
      with Cons.IH False show ?thesis by (simp add: rstrip_Cons)
    qed
  qed
qed

lemma collapse_strip_collapse: "collapse_ws (strip (collapse_ws s)) = strip (collapse_ws s)"
proof -
  have "collapse_ws (dropWhile is_space (collapse_ws s)) = dropWhile is_space (collapse_ws s)"
    by (simp add: dropWhile_collapse collapse_idem)
  then show ?thesis unfolding strip_def by (rule collapse_rstrip)
qed

lemma dropWhile_rstrip_nolead:
  assumes "dropWhile is_space s = s"
  shows "dropWhile is_space (rstrip s) = rstrip s"
proof (cases s)
  case Nil
  then show ?thesis by simp
next
  case (Cons a list)
  with assms have "\<not> is_space a" by (metis dropWhile_eq_Cons_conv)
  then show ?thesis using Cons by (simp add: rstrip_Cons)
qed

lemma rstrip_idem: "rstrip (rstrip s) = rstrip s"
  by (simp add: rstrip_def)

lemma strip_idem: "strip (strip s) = strip s"
  by (simp add: strip_def dropWhile_rstrip_nolead rstrip_idem)

lemma set_collapse: "set (collapse_ws s) \<subseteq> insert (CHR 0x20) {c \<in> set s. \<not> is_space c}"
proof (induction s rule: collapse_ws.induct)
  case 1
  show ?case by simp
next
  case (2 c cs)
  have "set (dropWhile is_space cs) \<subseteq> set cs" by (rule set_dropWhileD [THEN subsetI]) 
  with 2 show ?case by (cases "is_space c") auto
qed

lemma set_strip: "set (strip s) \<subseteq> set s"
  unfolding strip_def rstrip_def
  by (metis set_dropWhileD set_rev subsetI)


lemma apply_idem:
  "apply_preprocessing_options opts (apply_preprocessing_options opts x) =
   apply_preprocessing_options opts x"
proof -
  define z where "z = (if ignore_punctuation opts
     then remove_punct (if ignore_case opts then lower x else x)
     else (if ignore_case opts then lower x else x))"
  define y where "y = strip (collapse_ws z)"
  have y: "apply_preprocessing_options opts x = y"
    by (simp add: apply_preprocessing_options_def y_def z_def)
  have lz: "ignore_case opts \<Longrightarrow> lower z = z"
    by (simp add: z_def lower_remove_punct lower_idem)
  have ly: "ignore_case opts \<Longrightarrow> lower y = y"
    by (simp add: y_def lower_strip lower_collapse lz)
  have "set y \<subseteq> insert (CHR 0x20) {c \<in> set z. \<not> is_space c}"
    unfolding y_def using set_strip set_collapse by blast
  moreover have "ignore_punctuation opts \<Longrightarrow> \<forall>c \<in> set z. \<not> is_punct c"
    by (simp add: z_def remove_punct_def)
  ultimately have py: "ignore_punctuation opts \<Longrightarrow> remove_punct y = y"
    unfolding remove_punct_def by (auto simp: filter_id_conv)
  have "strip (collapse_ws y) = y"
    by (simp add: y_def collapse_strip_collapse strip_idem)
  then have "apply_preprocessing_options opts y = y"
    by (simp add: apply_preprocessing_options_def ly py)
  then show ?thesis by (simp add: y)
qed

lemma apply_no_linebreak:
  "list_all (\<lambda>c. \<not> is_linebreak c) (apply_preprocessing_options opts x)"
proof -
  have "set (apply_preprocessing_options opts x) \<subseteq> insert (CHR 0x20) {c. \<not> is_space c}"
    unfolding apply_preprocessing_options_def Let_def
    using set_strip set_collapse by blast
  then show ?thesis
    by (auto simp: list_all_iff dest: linebreak_is_space)
qed

lemma splitlines_from_plain:
  "list_all (\<lambda>c. \<not> is_linebreak c) x \<Longrightarrow>
   splitlines_from cur (x @ rest) = splitlines_from (cur @ x) rest"
  by (induction x arbitrary: cur) simp_all

lemma splitlines_from_join:
  "list_all (\<lambda>l. l \<noteq> [] \<and> list_all (\<lambda>c. \<not> is_linebreak c) l) (l # ls) \<Longrightarrow>
   splitlines_from cur (join_with [CHR 0x0A] (l # ls)) = (cur @ l) # ls"
proof (induction ls arbitrary: cur l)
  case Nil
  then show ?case using splitlines_from_plain [of l cur "[]"] by simp
next
  case (Cons m ms)
  have nl: "is_linebreak (CHR 0x0A)" by (simp add: is_linebreak_def)
  have "m \<noteq> []" using Cons.prems by simp
  then obtain d ds where m: "m = d # ds" by (cases m) auto
  have d: "\<not> is_linebreak d" using Cons.prems m by simp
  have "splitlines_from cur (join_with [CHR 0x0A] (l # m # ms))
        = splitlines_from (cur @ l) (CHR 0x0A # join_with [CHR 0x0A] (m # ms))"
    using Cons.prems splitlines_from_plain [of l cur] by simp
  also have "\<dots> = (cur @ l) # splitlines_from [] (join_with [CHR 0x0A] (m # ms))"
    using nl by (cases "join_with [CHR 0x0A] (m # ms)") simp_all
  also have "\<dots> = (cur @ l) # m # ms"
    using Cons.IH [of m "[]"] Cons.prems by simp
  finally show ?case .
qed

lemma splitlines_join:
  "list_all (\<lambda>l. l \<noteq> [] \<and> list_all (\<lambda>c. \<not> is_linebreak c) l) ls \<Longrightarrow>
   splitlines (join_with [CHR 0x0A] ls) = ls"
  by (cases ls) (simp_all add: splitlines_def splitlines_from_join)

text \<open>
  With de-hyphenation off, normalizing the newline-joined output of a first normalization
  gives the same lines again, for every raw text and every choice of \<open>ignore_case\<close> and
  \<open>ignore_punctuation\<close>.
\<close>

lemma preprocess_idem:
  assumes "\<not> de_hyphenate opts" and "preprocess_text opts (Some t) = Some ls"
  shows "preprocess_text opts (Some (join_with [CHR 0x0A] ls)) = Some ls"
proof -
  have ls: "ls = filter (\<lambda>l. l \<noteq> []) (map (apply_preprocessing_options opts) (splitlines t))"
    using assms by (simp add: preprocess_text_def)
  have "list_all (\<lambda>l. l \<noteq> [] \<and> list_all (\<lambda>c. \<not> is_linebreak c) l) ls"
    unfolding ls by (auto simp: list_all_iff apply_no_linebreak [unfolded list_all_iff])
  then have sp: "splitlines (join_with [CHR 0x0A] ls) = ls" by (rule splitlines_join)
  have "map (apply_preprocessing_options opts)
          (filter (\<lambda>l. l \<noteq> []) (map (apply_preprocessing_options opts) xs))
        = filter (\<lambda>l. l \<noteq> []) (map (apply_preprocessing_options opts) xs)" for xs
    by (induction xs) (simp_all add: apply_idem)
  then have "map (apply_preprocessing_options opts) ls = ls"
    unfolding ls .
  moreover have "filter (\<lambda>l. l \<noteq> []) ls = ls" unfolding ls by simp
  ultimately show ?thesis using assms(1) by (simp add: preprocess_text_def sp)
qed


text \<open>
  C7. Normalization is not idempotent at the raw text \<open>a-\rb\<close> with de-hyphenation on: the
  hyphen stands before a carriage return, the pattern \<open>-\s*\n\s*\<close> asks for a newline and leaves
  it, and \<open>splitlines\<close> cuts at the carriage return, so the first pass gives the lines \<open>a-\<close> and
  \<open>b\<close>. Joined by a newline they hold the hyphen before a newline, and the second pass joins
  them into the single line \<open>ab\<close>.
\<close>

theorem preprocess_dehyphenate_cr:
  "preprocess_text \<lparr>ignore_case = False, ignore_punctuation = False, de_hyphenate = True\<rparr>
     (Some [CHR ''a'', CHR ''-'', CHR 0x0D, CHR ''b'']) = Some [''a-'', ''b''] \<and>
   join_with [CHR 0x0A] [''a-'', ''b''] = [CHR ''a'', CHR ''-'', CHR 0x0A, CHR ''b''] \<and>
   preprocess_text \<lparr>ignore_case = False, ignore_punctuation = False, de_hyphenate = True\<rparr>
     (Some (join_with [CHR 0x0A] [''a-'', ''b''])) = Some [''ab'']"
  by (simp add: preprocess_text_def splitlines_def apply_preprocessing_options_def strip_def
        rstrip_def is_space_def is_linebreak_def)


end
